theory Spec2Isabelle
  imports Complex_Main "HOL-Library.Multiset"
begin

section \<open>JavaScript numbers\<close>

text \<open>
  A TypeScript \<open>number\<close> is an IEEE-754 double: a finite value, one of the two
  infinities, or NaN. The finite values are kept as real numbers; every arithmetic
  result is rounded to the nearest double (53 significant bits, ties to even,
  gradual underflow below \<open>2^-1022\<close>, overflow to an infinity from \<open>2^1024\<close> on).
  The two zeros are one value here: they are equal under every comparison the
  services make, both are falsy, and no code path divides by a zero.
\<close>

datatype number = Fin real | PosInf | NegInf | NaN

function bits :: "int \<Rightarrow> int" where
  \<comment> \<open>the number of binary digits of a positive integer\<close>
  "bits n = (if n \<le> 0 then 0 else 1 + bits (n div 2))"
  by pat_completeness auto
termination
  by (relation "measure nat") auto

declare bits.simps [simp del]

definition pow2 :: "int \<Rightarrow> real" where
  \<comment> \<open>\<open>2^p\<close> for an integer exponent of either sign\<close>
  "pow2 p = (if 0 \<le> p then 2 ^ nat p else 1 / 2 ^ nat (- p))"

definition ilog2 :: "real \<Rightarrow> int" where
  \<comment> \<open>\<open>\<lfloor>log\<^sub>2 q\<rfloor>\<close> of a positive real\<close>
  "ilog2 q = (if 1 \<le> q then bits \<lfloor>q\<rfloor> - 1 else - bits (\<lceil>1 / q\<rceil> - 1))"

definition half_even :: "real \<Rightarrow> int" where
  \<comment> \<open>the nearest integer, a tie going to the even neighbour\<close>
  "half_even m =
     (let f = \<lfloor>m\<rfloor>; d = m - of_int f
      in if d < 1 / 2 then f
         else if 1 / 2 < d then f + 1
         else if even f then f else f + 1)"

definition rnd :: "real \<Rightarrow> number" where
  "rnd q =
     (if q = 0 then Fin 0
      else
        let m = \<bar>q\<bar>;
            p = max (ilog2 m - 52) (- 1074);
            r = of_int (half_even (m / pow2 p)) * pow2 p
        in if pow2 1024 \<le> r then (if 0 < q then PosInf else NegInf)
           else Fin (if 0 < q then r else - r))"

fun add :: "number \<Rightarrow> number \<Rightarrow> number" where
  "add NaN _ = NaN"
| "add _ NaN = NaN"
| "add PosInf NegInf = NaN"
| "add NegInf PosInf = NaN"
| "add PosInf _ = PosInf"
| "add _ PosInf = PosInf"
| "add NegInf _ = NegInf"
| "add _ NegInf = NegInf"
| "add (Fin a) (Fin b) = rnd (a + b)"

definition neg :: "number \<Rightarrow> number" where
  "neg x = (case x of Fin a \<Rightarrow> Fin (- a) | PosInf \<Rightarrow> NegInf | NegInf \<Rightarrow> PosInf | NaN \<Rightarrow> NaN)"

definition sub :: "number \<Rightarrow> number \<Rightarrow> number" where
  \<comment> \<open>\<open>x - y\<close>, which IEEE arithmetic rounds as \<open>x + (-y)\<close>\<close>
  "sub x y = add x (neg y)"

fun le :: "number \<Rightarrow> number \<Rightarrow> bool" where
  \<comment> \<open>JavaScript's \<open><=\<close>: false as soon as one side is NaN\<close>
  "le NaN _ = False"
| "le _ NaN = False"
| "le NegInf _ = True"
| "le _ PosInf = True"
| "le (Fin a) (Fin b) = (a \<le> b)"
| "le _ _ = False"

definition ge :: "number \<Rightarrow> number \<Rightarrow> bool" where
  "ge x y = le y x"

definition div_length :: "number \<Rightarrow> nat \<Rightarrow> number" where
  \<comment> \<open>\<open>x / n\<close> for an array length \<open>n\<close>, which is a positive integer below \<open>2^32\<close>
      wherever the services divide\<close>
  "div_length x n =
     (case x of Fin a \<Rightarrow> rnd (a / of_nat n) | PosInf \<Rightarrow> PosInf | NegInf \<Rightarrow> NegInf | NaN \<Rightarrow> NaN)"

definition lt :: "number \<Rightarrow> number \<Rightarrow> bool" where
  \<comment> \<open>JavaScript's \<open><\<close>\<close>
  "lt x y = (le x y \<and> x \<noteq> y)"

definition truthy_number :: "number \<Rightarrow> bool" where
  \<comment> \<open>a number is falsy when it is zero or NaN\<close>
  "truthy_number x = (x \<noteq> NaN \<and> x \<noteq> Fin 0)"

definition or_zero :: "number \<Rightarrow> number" where
  \<comment> \<open>\<open>x || 0\<close>\<close>
  "or_zero x = (if truthy_number x then x else Fin 0)"

fun Math_max_from :: "number \<Rightarrow> number list \<Rightarrow> number" where
  "Math_max_from highest [] = highest"
| "Math_max_from highest (x # xs) =
     (if x = NaN then NaN else Math_max_from (if lt highest x then x else highest) xs)"

definition Math_max :: "number list \<Rightarrow> number" where
  \<comment> \<open>\<open>Math.max(...xs)\<close>: NaN as soon as one argument is NaN, \<open>-Infinity\<close> without
      arguments (the engine's limit on the number of arguments, far above the capacity of
      the window, is left out)\<close>
  "Math_max xs = Math_max_from NegInf xs"

fun Math_min_from :: "number \<Rightarrow> number list \<Rightarrow> number" where
  "Math_min_from lowest [] = lowest"
| "Math_min_from lowest (x # xs) =
     (if x = NaN then NaN else Math_min_from (if lt x lowest then x else lowest) xs)"

definition Math_min :: "number list \<Rightarrow> number" where
  "Math_min xs = Math_min_from PosInf xs"

section \<open>SensorHistoryService\<close>

text \<open>
  The service keeps its readings in a \<open>BehaviorSubject\<close> whose value is a JavaScript
  array, that is a reference. \<open>addReading\<close> pushes onto the array the subject holds
  and then publishes a copy of it; \<open>getAllReadings\<close> hands out the array the subject
  holds. The arrays therefore live in a store, addressed by \<open>ref\<close>, and the subject
  holds an address.
\<close>

record SensorReading =
  temperature :: number
  humidity :: number
  timestamp :: int

type_synonym ref = nat

record SensorHistoryService =
  arrays :: "ref \<Rightarrow> SensorReading list"
  fresh :: ref
  readingsSubject :: ref

definition maxReadings :: nat where
  "maxReadings = 100"

definition new_SensorHistoryService :: SensorHistoryService where
  \<comment> \<open>\<open>new BehaviorSubject<SensorReading[]>([])\<close>\<close>
  "new_SensorHistoryService = \<lparr>arrays = (\<lambda>_. []), fresh = 1, readingsSubject = 0\<rparr>"

definition addReading :: "SensorHistoryService \<Rightarrow> number \<Rightarrow> number \<Rightarrow> int \<Rightarrow> SensorHistoryService" where
  \<comment> \<open>the last argument is the value of \<open>Date.now()\<close> during the call\<close>
  "addReading s t h now =
     (let readings = readingsSubject s;
          newReading = \<lparr>temperature = t, humidity = h, timestamp = now\<rparr>;
          pushed = arrays s readings @ [newReading];
          kept = (if length pushed > maxReadings then tl pushed else pushed);
          copy = fresh s
      in s\<lparr>arrays := (arrays s)(readings := kept, copy := kept),
            fresh := Suc copy,
            readingsSubject := copy\<rparr>)"

definition clearReadings :: "SensorHistoryService \<Rightarrow> SensorHistoryService" where
  "clearReadings s =
     s\<lparr>arrays := (arrays s)(fresh s := []), fresh := Suc (fresh s), readingsSubject := fresh s\<rparr>"


definition held :: "SensorHistoryService \<Rightarrow> SensorReading list" where
  \<comment> \<open>the contents of the array the subject holds: \<open>this.readingsSubject.value\<close> read\<close>
  "held s = arrays s (readingsSubject s)"

definition sum_of :: "number list \<Rightarrow> number" where
  \<comment> \<open>\<open>xs.reduce((acc, x) => acc + x, 0)\<close>\<close>
  "sum_of xs = foldl add (Fin 0) xs"

definition getAverageTemperature :: "SensorHistoryService \<Rightarrow> number" where
  "getAverageTemperature s =
     (let readings = held s
      in if length readings = 0 then Fin 0
         else div_length (sum_of (map temperature readings)) (length readings))"

definition getAverageHumidity :: "SensorHistoryService \<Rightarrow> number" where
  "getAverageHumidity s =
     (let readings = held s
      in if length readings = 0 then Fin 0
         else div_length (sum_of (map humidity readings)) (length readings))"

definition getMaxTemperature :: "SensorHistoryService \<Rightarrow> number" where
  "getMaxTemperature s =
     (let readings = held s
      in if length readings = 0 then Fin 0 else Math_max (map temperature readings))"

definition getMinTemperature :: "SensorHistoryService \<Rightarrow> number" where
  "getMinTemperature s =
     (let readings = held s
      in if length readings = 0 then Fin 0 else Math_min (map temperature readings))"

definition getMaxHumidity :: "SensorHistoryService \<Rightarrow> number" where
  "getMaxHumidity s =
     (let readings = held s
      in if length readings = 0 then Fin 0 else Math_max (map humidity readings))"

definition getMinHumidity :: "SensorHistoryService \<Rightarrow> number" where
  "getMinHumidity s =
     (let readings = held s
      in if length readings = 0 then Fin 0 else Math_min (map humidity readings))"

definition whole_within :: "number \<Rightarrow> nat \<Rightarrow> bool" where
  \<comment> \<open>a whole number so small that \<open>n\<close> such readings add up without rounding\<close>
  "whole_within x n =
     (case x of Fin r \<Rightarrow> of_int \<lfloor>r\<rfloor> = r \<and> \<bar>r\<bar> * of_nat n \<le> 2 ^ 53 | _ \<Rightarrow> False)"

text \<open>A caller that holds an array may change it in any way (push, pop, splice, assignment).\<close>

definition mutate :: "SensorHistoryService \<Rightarrow> ref \<Rightarrow> (SensorReading list \<Rightarrow> SensorReading list) \<Rightarrow> SensorHistoryService" where
  "mutate s a f = s\<lparr>arrays := (arrays s)(a := f (arrays s a))\<rparr>"

text \<open>A run of \<open>addReading\<close> calls, each with its temperature, humidity and clock value.\<close>

fun addReadings :: "SensorHistoryService \<Rightarrow> (number \<times> number \<times> int) list \<Rightarrow> SensorHistoryService" where
  "addReadings s [] = s"
| "addReadings s ((t, h, now) # calls) = addReadings (addReading s t h now) calls"

definition reading_of :: "number \<times> number \<times> int \<Rightarrow> SensorReading" where
  "reading_of c = (case c of (t, h, now) \<Rightarrow> \<lparr>temperature = t, humidity = h, timestamp = now\<rparr>)"


section \<open>Snapshot values\<close>

text \<open>
  \<open>snapshot.val()\<close> is untyped JSON. The Realtime Database stores no null (a null
  child is an absent child), so a value is a boolean, a number, a string, an object or an
  array. An object is given by its own keys, in the order \<open>Object.keys\<close> lists them,
  with their values. An array is what \<open>val()\<close> returns for a node whose keys are all
  whole numbers, more than half of them present; it is given by its slots, \<open>None\<close> for
  a hole. A snapshot that does not exist is \<open>None\<close>, and so is \<open>undefined\<close>, the
  result of reading a property that is not there.
\<close>

datatype json =
  JBool bool | JNum number | JStr string | JObj "(string \<times> json) list" | JArr "json option list"

definition digit :: "nat \<Rightarrow> char" where
  "digit d = char_of (of_char CHR ''0'' + d)"

function show_nat :: "nat \<Rightarrow> string" where
  "show_nat n = (if n < 10 then [digit n] else show_nat (n div 10) @ [digit (n mod 10)])"
  by pat_completeness auto
termination
  by (relation "measure id") auto

declare show_nat.simps [simp del]

definition entries :: "json \<Rightarrow> (string \<times> json) list" where
  \<comment> \<open>the own enumerable properties: those of an object, the indexed characters of a
      string, the indexed slots of an array that are not holes, none of a boolean or a
      number\<close>
  "entries v =
     (case v of
        JObj kvs \<Rightarrow> kvs
      | JStr s \<Rightarrow> zip (map show_nat [0..<length s]) (map (\<lambda>c. JStr [c]) s)
      | JArr slots \<Rightarrow> [(show_nat i, w). (i, Some w) \<leftarrow> zip [0..<length slots] slots]
      | _ \<Rightarrow> [])"

definition Object_keys :: "json \<Rightarrow> string list" where
  "Object_keys v = map fst (entries v)"

definition get :: "json \<Rightarrow> string \<Rightarrow> json option" where
  \<comment> \<open>\<open>v[k]\<close> and \<open>v.k\<close>, for the property names the services read (none of them is
      \<open>length\<close>)\<close>
  "get v k = map_of (entries v) k"

definition truthy :: "json option \<Rightarrow> bool" where
  "truthy v =
     (case v of
        None \<Rightarrow> False
      | Some (JBool b) \<Rightarrow> b
      | Some (JNum n) \<Rightarrow> truthy_number n
      | Some (JStr s) \<Rightarrow> s \<noteq> []
      | Some (JObj _) \<Rightarrow> True
      | Some (JArr _) \<Rightarrow> True)"

definition or_default :: "json option \<Rightarrow> json \<Rightarrow> json" where
  \<comment> \<open>\<open>v || d\<close>\<close>
  "or_default v d = (if truthy v then the v else d)"

fun parseFloat :: "(string \<Rightarrow> number) \<Rightarrow> json option \<Rightarrow> number" where
  \<comment> \<open>\<open>parseFloat\<close> reads the longest numeric prefix of the string form of its
      argument. A number gives itself; a string gives what the runtime's parser (the first
      argument here) finds at its start; \<open>undefined\<close>, a boolean and an object give NaN.
      The string form of an array is that of its slots joined by commas, a hole giving the
      empty string; no numeric prefix reaches past a comma, so an array gives what its
      first slot gives, and the empty array NaN.\<close>
  "parseFloat of_string None = NaN"
| "parseFloat of_string (Some (JNum n)) = n"
| "parseFloat of_string (Some (JStr s)) = of_string s"
| "parseFloat of_string (Some (JBool b)) = NaN"
| "parseFloat of_string (Some (JObj kvs)) = NaN"
| "parseFloat of_string (Some (JArr [])) = NaN"
| "parseFloat of_string (Some (JArr (slot # slots))) = parseFloat of_string slot"

section \<open>IoTService\<close>

datatype status = optimal | warning | critical

record IoTService =
  temperatureSubject :: number
  humiditySubject :: number
  motionSubject :: json
  statusSubject :: status
  lastUpdatedSubject :: int
  isLoadingSubject :: bool
  sensorHistory :: SensorHistoryService

definition new_IoTService :: "int \<Rightarrow> IoTService" where
  \<comment> \<open>the argument is the clock at construction, the value of \<open>new Date()\<close>\<close>
  "new_IoTService now =
     \<lparr>temperatureSubject = Fin 0,
      humiditySubject = Fin 0,
      motionSubject = JBool False,
      statusSubject = optimal,
      lastUpdatedSubject = now,
      isLoadingSubject = True,
      sensorHistory = new_SensorHistoryService\<rparr>"

definition updateStatus :: "IoTService \<Rightarrow> number \<Rightarrow> number \<Rightarrow> IoTService" where
  "updateStatus s t h =
     (let tempOptimal = (ge t (Fin 16) \<and> le t (Fin 26));
          humidityOptimal = (ge h (Fin 30) \<and> le h (Fin 60));
          tempWarning = (ge t (Fin 12) \<and> le t (Fin 30));
          humidityWarning = (ge h (Fin 20) \<and> le h (Fin 70))
      in if tempOptimal \<and> humidityOptimal then s\<lparr>statusSubject := optimal\<rparr>
         else if tempWarning \<and> humidityWarning then s\<lparr>statusSubject := warning\<rparr>
         else s\<lparr>statusSubject := critical\<rparr>)"

definition sensorValue :: "(string \<Rightarrow> number) \<Rightarrow> int \<Rightarrow> int \<Rightarrow> IoTService \<Rightarrow> json option \<Rightarrow> IoTService" where
  \<comment> \<open>the value callback of the \<open>warehouse\<close> listener; \<open>now\<close> is the clock read by
      \<open>new Date()\<close>, \<open>now'\<close> the one read by \<open>Date.now()\<close> in \<open>addReading\<close>\<close>
  "sensorValue of_string now now' s snapshot =
     (case snapshot of
        None \<Rightarrow> s
      | Some data \<Rightarrow>
          let t = or_zero (parseFloat of_string (get data ''temperature''));
              h = or_zero (parseFloat of_string (get data ''humidity''));
              s1 = s\<lparr>temperatureSubject := t,
                     humiditySubject := h,
                     lastUpdatedSubject := now,
                     isLoadingSubject := False\<rparr>;
              s2 = s1\<lparr>sensorHistory := addReading (sensorHistory s1) t h now'\<rparr>
          in updateStatus s2 t h)"

definition sensorError :: "IoTService \<Rightarrow> IoTService" where
  \<comment> \<open>the error callback of the \<open>warehouse\<close> listener\<close>
  "sensorError s = s\<lparr>isLoadingSubject := False\<rparr>"

definition motionValue :: "IoTService \<Rightarrow> json option \<Rightarrow> IoTService" where
  "motionValue s snapshot =
     (case snapshot of None \<Rightarrow> s | Some motion \<Rightarrow> s\<lparr>motionSubject := motion\<rparr>)"

definition motionError :: "IoTService \<Rightarrow> IoTService" where
  "motionError s = s"

definition getTemperature :: "IoTService \<Rightarrow> number" where
  "getTemperature s = temperatureSubject s"

definition getHumidity :: "IoTService \<Rightarrow> number" where
  "getHumidity s = humiditySubject s"

definition getMotion :: "IoTService \<Rightarrow> json" where
  "getMotion s = motionSubject s"

definition getStatus :: "IoTService \<Rightarrow> status" where
  "getStatus s = statusSubject s"


section \<open>WarehouseService\<close>

record InventoryTransaction =
  date :: string
  amount :: json
  ton_sau :: json
  type :: json

text \<open>The two event interfaces have the fields \<open>timestamp\<close> and \<open>event\<close>.\<close>

record AlarmEvent =
  alarm_timestamp :: string
  alarm_event :: json

record DoorEvent =
  door_timestamp :: string
  door_event :: json

record WarehouseService =
  currentInventorySubject :: json
  historySubject :: "InventoryTransaction list"
  alarmHistorySubject :: "AlarmEvent list"
  doorHistorySubject :: "DoorEvent list"
  warehouseLoadingSubject :: bool

definition new_WarehouseService :: WarehouseService where
  "new_WarehouseService =
     \<lparr>currentInventorySubject = JNum (Fin 0),
      historySubject = [],
      alarmHistorySubject = [],
      doorHistorySubject = [],
      warehouseLoadingSubject = True\<rparr>"

subsection \<open>Array.prototype.sort\<close>

text \<open>
  \<open>sort\<close> reads every result of the comparator through \<open>SortCompare\<close>, where NaN
  counts as \<open>+0\<close>. The language fixes the new order of the array only when
  \<open>SortCompare\<close> is a consistent comparator for its elements: then an element that
  compares less than another stands before it, and elements that compare equal keep
  their order. Otherwise the order is up to the engine, which rearranges the elements it
  was given. A call of \<open>sort\<close> is therefore a relation between the array before and
  the array after.
\<close>

definition SortCompare :: "('a \<Rightarrow> 'a \<Rightarrow> number) \<Rightarrow> 'a \<Rightarrow> 'a \<Rightarrow> number" where
  "SortCompare comparefn x y = (let v = comparefn x y in if v = NaN then Fin 0 else v)"

definition lt_C :: "('a \<Rightarrow> 'a \<Rightarrow> number) \<Rightarrow> 'a \<Rightarrow> 'a \<Rightarrow> bool" where
  "lt_C comparefn a b = lt (SortCompare comparefn a b) (Fin 0)"

definition eq_C :: "('a \<Rightarrow> 'a \<Rightarrow> number) \<Rightarrow> 'a \<Rightarrow> 'a \<Rightarrow> bool" where
  "eq_C comparefn a b = (SortCompare comparefn a b = Fin 0)"

definition gt_C :: "('a \<Rightarrow> 'a \<Rightarrow> number) \<Rightarrow> 'a \<Rightarrow> 'a \<Rightarrow> bool" where
  "gt_C comparefn a b = lt (Fin 0) (SortCompare comparefn a b)"

definition consistent :: "('a \<Rightarrow> 'a \<Rightarrow> number) \<Rightarrow> 'a list \<Rightarrow> bool" where
  \<comment> \<open>a consistent comparator for the elements of the array\<close>
  "consistent comparefn items =
     (\<forall>a \<in> set items. \<forall>b \<in> set items. \<forall>c \<in> set items.
        eq_C comparefn a a
        \<and> (eq_C comparefn a b \<longrightarrow> eq_C comparefn b a)
        \<and> (eq_C comparefn a b \<and> eq_C comparefn b c \<longrightarrow> eq_C comparefn a c)
        \<and> (lt_C comparefn a b \<and> lt_C comparefn b c \<longrightarrow> lt_C comparefn a c)
        \<and> (gt_C comparefn a b \<and> gt_C comparefn b c \<longrightarrow> gt_C comparefn a c))"

definition Array_sort :: "('a \<Rightarrow> 'a \<Rightarrow> number) \<Rightarrow> 'a list \<Rightarrow> 'a list \<Rightarrow> bool" where
  \<comment> \<open>\<open>items.sort(comparefn)\<close> turns the array \<open>items\<close> into the array \<open>result\<close>\<close>
  "Array_sort comparefn items result =
     (mset result = mset items
      \<and> (consistent comparefn items \<longrightarrow>
           sorted_wrt (\<lambda>a b. \<not> lt_C comparefn b a) result
           \<and> (\<forall>a \<in> set items.
                 filter (eq_C comparefn a) result = filter (eq_C comparefn a) items)))"

text \<open>
  One sort that meets this description is the stable insertion sort. It serves to show
  that every call of \<open>sort\<close> has a result.
\<close>

fun insert_by :: "('a \<Rightarrow> 'a \<Rightarrow> number) \<Rightarrow> 'a \<Rightarrow> 'a list \<Rightarrow> 'a list" where
  "insert_by comparefn x [] = [x]"
| "insert_by comparefn x (y # ys) =
     (if gt_C comparefn x y then y # insert_by comparefn x ys else x # y # ys)"

fun insertion_sort :: "('a \<Rightarrow> 'a \<Rightarrow> number) \<Rightarrow> 'a list \<Rightarrow> 'a list" where
  "insertion_sort comparefn [] = []"
| "insertion_sort comparefn (x # xs) = insert_by comparefn x (insertion_sort comparefn xs)"

subsection \<open>The snapshot listener\<close>

text \<open>
  \<open>getTime s\<close> stands for \<open>new Date(s).getTime()\<close>: the time value the runtime's
  \<open>Date\<close> reads from the string, NaN for an Invalid Date. It is a parameter of the
  listener. The listener sorts three arrays, so a run of it is a relation between the
  service before and the service after.
\<close>

definition member :: "json option \<Rightarrow> string \<Rightarrow> json option" where
  \<comment> \<open>\<open>v.k\<close> for a value read from an object under one of its own keys\<close>
  "member v k = (case v of None \<Rightarrow> None | Some w \<Rightarrow> get w k)"

definition alarm_compare :: "(string \<Rightarrow> number) \<Rightarrow> AlarmEvent \<Rightarrow> AlarmEvent \<Rightarrow> number" where
  "alarm_compare getTime a b = sub (getTime (alarm_timestamp b)) (getTime (alarm_timestamp a))"

definition door_compare :: "(string \<Rightarrow> number) \<Rightarrow> DoorEvent \<Rightarrow> DoorEvent \<Rightarrow> number" where
  "door_compare getTime a b = sub (getTime (door_timestamp b)) (getTime (door_timestamp a))"

definition date_compare :: "(string \<Rightarrow> number) \<Rightarrow> InventoryTransaction \<Rightarrow> InventoryTransaction \<Rightarrow> number" where
  "date_compare getTime a b = sub (getTime (date b)) (getTime (date a))"

definition push_alarm :: "json \<Rightarrow> AlarmEvent list \<Rightarrow> string \<Rightarrow> AlarmEvent list" where
  "push_alarm alarms alarmEvents stamp =
     (let alarm = get alarms stamp
      in alarmEvents @
         [\<lparr>alarm_timestamp = stamp,
           alarm_event = or_default (member alarm ''event'') (JStr ''ALARM'')\<rparr>])"

definition push_door :: "json \<Rightarrow> DoorEvent list \<Rightarrow> string \<Rightarrow> DoorEvent list" where
  "push_door doors doorEvents stamp =
     (let door = get doors stamp
      in doorEvents @
         [\<lparr>door_timestamp = stamp,
           door_event = or_default (member door ''event'') (JStr ''OPEN'')\<rparr>])"

definition push_transaction :: "json \<Rightarrow> InventoryTransaction list \<Rightarrow> string \<Rightarrow> InventoryTransaction list" where
  "push_transaction history transactions key =
     (let transaction = get history key
      in if key \<noteq> ''alarm'' \<and> key \<noteq> ''door'' \<and> member transaction ''amount'' \<noteq> None
         then transactions @
              [\<lparr>date = key,
                amount = or_default (member transaction ''amount'') (JNum (Fin 0)),
                ton_sau = or_default (member transaction ''ton_sau'') (JNum (Fin 0)),
                type = or_default (member transaction ''type'') (JStr ''NHAP'')\<rparr>]
         else transactions)"

inductive alarmHistory :: "(string \<Rightarrow> number) \<Rightarrow> json \<Rightarrow> WarehouseService \<Rightarrow> WarehouseService \<Rightarrow> bool"
  for getTime history where
  \<comment> \<open>the statement \<open>if (data.history.alarm) { ... }\<close>\<close>
  no_alarm: "\<not> truthy (get history ''alarm'') \<Longrightarrow> alarmHistory getTime history s s"
| alarm:
    "get history ''alarm'' = Some alarms \<Longrightarrow> truthy (Some alarms) \<Longrightarrow>
     Array_sort (alarm_compare getTime)
       (foldl (push_alarm alarms) [] (Object_keys alarms)) alarmEvents \<Longrightarrow>
     alarmHistory getTime history s (s\<lparr>alarmHistorySubject := alarmEvents\<rparr>)"

inductive doorHistory :: "(string \<Rightarrow> number) \<Rightarrow> json \<Rightarrow> WarehouseService \<Rightarrow> WarehouseService \<Rightarrow> bool"
  for getTime history where
  \<comment> \<open>the statement \<open>if (data.history.door) { ... }\<close>\<close>
  no_door: "\<not> truthy (get history ''door'') \<Longrightarrow> doorHistory getTime history s s"
| door:
    "get history ''door'' = Some doors \<Longrightarrow> truthy (Some doors) \<Longrightarrow>
     Array_sort (door_compare getTime)
       (foldl (push_door doors) [] (Object_keys doors)) doorEvents \<Longrightarrow>
     doorHistory getTime history s (s\<lparr>doorHistorySubject := doorEvents\<rparr>)"

inductive processHistory :: "(string \<Rightarrow> number) \<Rightarrow> WarehouseService \<Rightarrow> json \<Rightarrow> WarehouseService \<Rightarrow> bool"
  for getTime where
  \<comment> \<open>the body of \<open>if (data.history)\<close>\<close>
  "alarmHistory getTime history s s1 \<Longrightarrow> doorHistory getTime history s1 s2 \<Longrightarrow>
   Array_sort (date_compare getTime)
     (foldl (push_transaction history) [] (Object_keys history)) transactions \<Longrightarrow>
   processHistory getTime s history (s2\<lparr>historySubject := transactions\<rparr>)"

inductive warehouseValue :: "(string \<Rightarrow> number) \<Rightarrow> WarehouseService \<Rightarrow> json option \<Rightarrow> WarehouseService \<Rightarrow> bool"
  for getTime where
  \<comment> \<open>the value callback of the \<open>warehouse\<close> listener\<close>
  not_exists: "warehouseValue getTime s None s"
| no_history:
    "\<not> truthy (get data ''history'') \<Longrightarrow>
     warehouseValue getTime s (Some data)
       (s\<lparr>currentInventorySubject := or_default (get data ''quantity'') (JNum (Fin 0)),
          warehouseLoadingSubject := False\<rparr>)"
| history:
    "get data ''history'' = Some history \<Longrightarrow> truthy (Some history) \<Longrightarrow>
     processHistory getTime
       (s\<lparr>currentInventorySubject := or_default (get data ''quantity'') (JNum (Fin 0))\<rparr>)
       history s' \<Longrightarrow>
     warehouseValue getTime s (Some data) (s'\<lparr>warehouseLoadingSubject := False\<rparr>)"

definition warehouseError :: "WarehouseService \<Rightarrow> WarehouseService" where
  "warehouseError s = s\<lparr>warehouseLoadingSubject := False\<rparr>"

subsection \<open>Sample data\<close>

text \<open>The history of the specification's example snapshot.\<close>

definition sample_history :: json where
  "sample_history =
     JObj [(''alarm'', JObj [(''2026-01-05_16-37-41'', JObj [(''event'', JStr ''ALARM'')])]),
           (''door'', JObj [(''2026-01-05_16-30-00'', JObj [(''event'', JStr ''OPEN'')])]),
           (''2025-12-20_20-11-20'',
              JObj [(''amount'', JNum (Fin 50)), (''ton_sau'', JNum (Fin 150)),
                    (''type'', JStr ''NHAP'')])]"

subsection \<open>formatDate\<close>

text \<open>
  Three functions of the runtime are parameters: \<open>Number\<close> on strings; \<open>makeTime\<close>,
  the calendar arithmetic of the \<open>Date\<close> constructor in the local time zone on integral
  fields (\<open>None\<close> when the instant is outside the range of time values); and \<open>fmt\<close>,
  the \<open>vi-VN\<close> rendering of a time value.
\<close>

fun split_on :: "char \<Rightarrow> string \<Rightarrow> string list" where
  \<comment> \<open>\<open>s.split(sep)\<close> for a separator of one character\<close>
  "split_on sep [] = [[]]"
| "split_on sep (c # cs) =
     (if c = sep then [] # split_on sep cs
      else (case split_on sep cs of [] \<Rightarrow> [[c]] | p # ps \<Rightarrow> (c # p) # ps))"

definition elem :: "number list \<Rightarrow> nat \<Rightarrow> number" where
  \<comment> \<open>an element bound by array destructuring; a missing one is \<open>undefined\<close>, which
      the subtraction and the \<open>Date\<close> constructor convert to NaN\<close>
  "elem xs i = (if i < length xs then xs ! i else NaN)"

definition trunc :: "real \<Rightarrow> int" where
  \<comment> \<open>\<open>ToIntegerOrInfinity\<close> on a finite number\<close>
  "trunc x = (if 0 \<le> x then \<lfloor>x\<rfloor> else \<lceil>x\<rceil>)"

definition new_Date ::
  "(int \<Rightarrow> int \<Rightarrow> int \<Rightarrow> int \<Rightarrow> int \<Rightarrow> int \<Rightarrow> int option) \<Rightarrow>
   number \<Rightarrow> number \<Rightarrow> number \<Rightarrow> number \<Rightarrow> number \<Rightarrow> number \<Rightarrow> int option" where
  \<comment> \<open>\<open>new Date(year, monthIndex, day, hours, minutes, seconds)\<close>: the time value, or
      \<open>None\<close> for an Invalid Date\<close>
  "new_Date makeTime year monthIndex day hours minutes seconds =
     (case (year, monthIndex, day, hours, minutes, seconds) of
        (Fin y, Fin m, Fin d, Fin h, Fin mi, Fin s) \<Rightarrow>
          let yi = trunc y;
              yr = (if 0 \<le> yi \<and> yi \<le> 99 then 1900 + yi else yi)
          in makeTime yr (trunc m) (trunc d) (trunc h) (trunc mi) (trunc s)
      | _ \<Rightarrow> None)"

definition toLocaleString :: "(int \<Rightarrow> string) \<Rightarrow> int option \<Rightarrow> string" where
  "toLocaleString fmt d = (case d of None \<Rightarrow> ''Invalid Date'' | Some tv \<Rightarrow> fmt tv)"

definition formatDate ::
  "(string \<Rightarrow> number) \<Rightarrow> (int \<Rightarrow> int \<Rightarrow> int \<Rightarrow> int \<Rightarrow> int \<Rightarrow> int \<Rightarrow> int option) \<Rightarrow>
   (int \<Rightarrow> string) \<Rightarrow> string \<Rightarrow> string" where
  "formatDate Number makeTime fmt dateString =
     (case split_on CHR ''_'' dateString of
        datePart # timePart # _ \<Rightarrow>
          let ds = map Number (split_on CHR ''-'' datePart);
              ts = map Number (split_on CHR ''-'' timePart);
              d = new_Date makeTime (elem ds 0) (sub (elem ds 1) (Fin 1)) (elem ds 2)
                    (elem ts 0) (elem ts 1) (elem ts 2)
          in toLocaleString fmt d
      | _ \<Rightarrow> dateString)"

section \<open>DashboardComponent: the theft alert\<close>

text \<open>
  \<open>setTimeout\<close> is modelled by the list of pending callbacks with the clock value at
  which each is due. All callbacks of the component are the same (\<open>next(false)\<close>), so a
  pending callback is its due time. \<open>emitted\<close> records every value the alert subject
  was sent, with the clock at that moment.
\<close>

record DashboardComponent =
  clock :: int
  intruderAlert :: bool
  alertTime :: "int option"
  timers :: "int list"
  emitted :: "(int \<times> bool) list"

definition new_DashboardComponent :: "int \<Rightarrow> DashboardComponent" where
  "new_DashboardComponent now =
     \<lparr>clock = now, intruderAlert = False, alertTime = None, timers = [], emitted = []\<rparr>"

definition alert_next :: "DashboardComponent \<Rightarrow> bool \<Rightarrow> DashboardComponent" where
  \<comment> \<open>\<open>this.intruderAlert$.next(v)\<close>\<close>
  "alert_next d v = d\<lparr>intruderAlert := v, emitted := emitted d @ [(clock d, v)]\<rparr>"

definition triggerTheftAlert :: "DashboardComponent \<Rightarrow> DashboardComponent" where
  "triggerTheftAlert d =
     (let d1 = d\<lparr>alertTime := Some (clock d)\<rparr>;
          d2 = alert_next d1 True
      in d2\<lparr>timers := timers d2 @ [clock d2 + 8000]\<rparr>)"

definition dismissAlert :: "DashboardComponent \<Rightarrow> DashboardComponent" where
  "dismissAlert d = alert_next d False"

definition motion_seen :: "DashboardComponent \<Rightarrow> json \<Rightarrow> DashboardComponent" where
  \<comment> \<open>the subscriber of \<open>checkMotionAlert\<close>\<close>
  "motion_seen d motion = (if truthy (Some motion) then triggerTheftAlert d else d)"

fun fire :: "DashboardComponent \<Rightarrow> int list \<Rightarrow> DashboardComponent" where
  \<comment> \<open>runs the callbacks due at the given times, in that order\<close>
  "fire d [] = d"
| "fire d (due # dues) = fire (alert_next (d\<lparr>clock := due\<rparr>) False) dues"

definition advance :: "DashboardComponent \<Rightarrow> int \<Rightarrow> DashboardComponent" where
  \<comment> \<open>lets the clock reach \<open>t\<close>: the callbacks due by then run in the order of their due
      times (those due together in the order they were set), the others stay pending\<close>
  "advance d t =
     (let due = sort_key (\<lambda>x. x) (filter (\<lambda>x. x \<le> t) (timers d));
          d1 = fire (d\<lparr>timers := filter (\<lambda>x. \<not> x \<le> t) (timers d)\<rparr>) due
      in d1\<lparr>clock := t\<rparr>)"


section \<open>Numbers\<close>

subsection \<open>The order of numbers\<close>

lemma le_refl: "x \<noteq> NaN \<Longrightarrow> le x x"
  by (cases x) simp_all

lemma le_trans: "le x y \<Longrightarrow> le y z \<Longrightarrow> le x z"
  by (cases x; cases y; cases z) simp_all

lemma le_total: "x \<noteq> NaN \<Longrightarrow> y \<noteq> NaN \<Longrightarrow> le x y \<or> le y x"
  by (cases x; cases y) auto

lemma le_not_NaN: "le x y \<Longrightarrow> x \<noteq> NaN \<and> y \<noteq> NaN"
  by (cases x; cases y) simp_all

lemma not_lt_le: "x \<noteq> NaN \<Longrightarrow> y \<noteq> NaN \<Longrightarrow> \<not> lt x y \<Longrightarrow> le y x"
  by (cases x; cases y) (auto simp: lt_def)

subsection \<open>Evaluating rounded arithmetic\<close>

lemma bits_nonpos: "n \<le> 0 \<Longrightarrow> bits n = 0"
  by (simp add: bits.simps)

lemma bits_pos: "0 < n \<Longrightarrow> bits n = 1 + bits (n div 2)"
  by (subst bits.simps) simp

lemmas rnd_eval = rnd_def ilog2_def pow2_def half_even_def bits_nonpos bits_pos Let_def

subsection \<open>The sign of a rounded number\<close>

lemma pow2_powi: "pow2 p = 2 powi p"
  by (simp add: pow2_def power_int_def inverse_eq_divide power_one_over)

lemma pow2_pos: "0 < pow2 p"
  by (simp add: pow2_powi)

lemma pow2_mono: "p \<le> q \<Longrightarrow> pow2 p \<le> pow2 q"
  by (simp add: pow2_powi power_int_increasing)

lemma pow2_double: "pow2 (p + 1) = 2 * pow2 p"
  by (simp add: pow2_powi power_int_add)

lemma bits_nonneg: "0 \<le> bits n"
proof (induction n rule: bits.induct)
  case (1 n)
  show ?case
  proof (cases "n \<le> 0")
    case True
    then show ?thesis by (simp add: bits_nonpos)
  next
    case False
    with 1 have "0 \<le> bits (n div 2)" by simp
    with False show ?thesis by (simp add: bits_pos)
  qed
qed

lemma pow2_bits_le: "0 < n \<Longrightarrow> pow2 (bits n - 1) \<le> of_int n"
proof (induction n rule: bits.induct)
  case (1 n)
  have b: "bits n = 1 + bits (n div 2)"
    using 1(2) by (rule bits_pos)
  show ?case
  proof (cases "n div 2 \<le> 0")
    case True
    then have "bits (n div 2) = 0" by (rule bits_nonpos)
    with b 1(2) show ?thesis by (simp add: pow2_def)
  next
    case False
    then have h: "0 < n div 2" by simp
    have "pow2 (bits (n div 2) - 1) \<le> of_int (n div 2)"
      using 1(2) h by (intro 1(1)) simp_all
    then have "2 * pow2 (bits (n div 2) - 1) \<le> 2 * of_int (n div 2)"
      by simp
    also have "2 * pow2 (bits (n div 2) - 1) = pow2 (bits n - 1)"
      using pow2_double [of "bits (n div 2) - 1"] b by simp
    also have "2 * real_of_int (n div 2) \<le> of_int n"
    proof -
      have "2 * (n div 2) \<le> n" by simp
      then have "real_of_int (2 * (n div 2)) \<le> of_int n" by (rule of_int_le_iff [THEN iffD2])
      then show ?thesis by simp
    qed
    finally show ?thesis .
  qed
qed

lemma half_even_ge_1: "1 \<le> x \<Longrightarrow> 1 \<le> half_even x"
proof -
  assume "1 \<le> x"
  then have "1 \<le> \<lfloor>x\<rfloor>" by simp
  then show ?thesis by (simp add: half_even_def Let_def)
qed

lemma ilog2_bound: "1 \<le> q \<Longrightarrow> 0 \<le> ilog2 q \<and> pow2 (ilog2 q) \<le> q"
proof -
  assume q: "1 \<le> q"
  then have f: "0 < \<lfloor>q\<rfloor>" by simp
  have e: "ilog2 q = bits \<lfloor>q\<rfloor> - 1"
    using q by (simp add: ilog2_def)
  have "pow2 (bits \<lfloor>q\<rfloor> - 1) \<le> of_int \<lfloor>q\<rfloor>"
    using f by (rule pow2_bits_le)
  also have "\<dots> \<le> q" by simp
  finally have "pow2 (ilog2 q) \<le> q" by (simp add: e)
  moreover have "0 \<le> ilog2 q"
    using f bits_pos [of "\<lfloor>q\<rfloor>"] bits_nonneg [of "\<lfloor>q\<rfloor> div 2"] by (simp add: e)
  ultimately show ?thesis by simp
qed

lemma rnd_magnitude:
  assumes "1 \<le> m"
  shows "0 < of_int (half_even (m / pow2 (max (ilog2 m - 52) (- 1074)))) * pow2 (max (ilog2 m - 52) (- 1074))"
proof -
  let ?p = "max (ilog2 m - 52) (- 1074)"
  have "?p \<le> ilog2 m"
    using ilog2_bound [OF assms] by simp
  then have "pow2 ?p \<le> pow2 (ilog2 m)" by (rule pow2_mono)
  also have "\<dots> \<le> m" using ilog2_bound [OF assms] by simp
  finally have "1 \<le> m / pow2 ?p"
    using pow2_pos [of ?p] by (simp add: le_divide_eq)
  then have "1 \<le> half_even (m / pow2 ?p)" by (rule half_even_ge_1)
  then have "0 < real_of_int (half_even (m / pow2 ?p))" by simp
  then show ?thesis
    using pow2_pos [of ?p] by (rule mult_pos_pos)
qed

lemma lt_zero_Fin: "0 < r \<Longrightarrow> lt (Fin 0) (Fin r) \<and> lt (Fin (- r)) (Fin 0)"
  by (simp add: lt_def)

lemma lt_zero_Inf: "lt (Fin 0) PosInf \<and> lt NegInf (Fin 0)"
  by (simp add: lt_def)

lemma rnd_positive: "1 \<le> q \<Longrightarrow> lt (Fin 0) (rnd q)"
proof -
  assume q: "1 \<le> q"
  let ?r = "of_int (half_even (q / pow2 (max (ilog2 q - 52) (- 1074))))
              * pow2 (max (ilog2 q - 52) (- 1074))"
  have r: "0 < ?r" using q by (rule rnd_magnitude)
  have "rnd q = (if pow2 1024 \<le> ?r then PosInf else Fin ?r)"
    using q by (simp add: rnd_def Let_def)
  then show ?thesis
    using lt_zero_Fin [OF r] lt_zero_Inf by (cases "pow2 1024 \<le> ?r") (simp_all only: if_True if_False)
qed

lemma rnd_negative: "q \<le> - 1 \<Longrightarrow> lt (rnd q) (Fin 0)"
proof -
  assume q: "q \<le> - 1"
  let ?r = "of_int (half_even (- q / pow2 (max (ilog2 (- q) - 52) (- 1074))))
              * pow2 (max (ilog2 (- q) - 52) (- 1074))"
  have r: "0 < ?r" using q rnd_magnitude [of "- q"] by simp
  have "rnd q = (if pow2 1024 \<le> ?r then NegInf else Fin (- ?r))"
    using q by (simp add: rnd_def Let_def)
  then show ?thesis
    using lt_zero_Fin [OF r] lt_zero_Inf by (cases "pow2 1024 \<le> ?r") (simp_all only: if_True if_False)
qed

lemma rnd_zero: "rnd 0 = Fin 0"
  by (simp add: rnd_def)

subsection \<open>Rounding does not cross a whole number\<close>

lemma half_even_ge_int: "of_int k \<le> z \<Longrightarrow> k \<le> half_even z"
proof -
  assume "of_int k \<le> z"
  then have "k \<le> \<lfloor>z\<rfloor>" by (simp add: le_floor_iff)
  then show ?thesis by (simp add: half_even_def Let_def)
qed

lemma half_even_le_int: "z \<le> of_int k \<Longrightarrow> half_even z \<le> k"
proof (cases "z = of_int k")
  case True
  then show ?thesis by (simp add: half_even_def Let_def)
next
  case False
  assume "z \<le> of_int k"
  with False have "z < of_int k" by simp
  then have "\<lfloor>z\<rfloor> < k" by (simp add: floor_less_iff)
  then show ?thesis by (simp add: half_even_def Let_def)
qed

lemma half_even_of_int: "half_even (of_int k) = k"
  by (simp add: half_even_def Let_def)

lemma rnd_minus: "rnd (- q) = neg (rnd q)"
  by (simp add: rnd_def neg_def Let_def)

lemma pow2_neg_int: "p \<le> 0 \<Longrightarrow> \<exists>N :: int. 0 < N \<and> 1 / pow2 p = of_int N"
proof -
  assume "p \<le> 0"
  then have "1 / pow2 p = of_int (2 ^ nat (- p))"
    by (simp add: pow2_def)
  moreover have "(0::int) < 2 ^ nat (- p)" by simp
  ultimately show ?thesis by blast
qed

text \<open>The magnitude that \<open>rnd\<close> gives a positive number, before the overflow test.\<close>

lemma rnd_positive_form:
  "0 < q \<Longrightarrow>
   rnd q =
     (if pow2 1024 \<le> of_int (half_even (q / pow2 (max (ilog2 q - 52) (- 1074))))
                        * pow2 (max (ilog2 q - 52) (- 1074))
      then PosInf
      else Fin (of_int (half_even (q / pow2 (max (ilog2 q - 52) (- 1074))))
                 * pow2 (max (ilog2 q - 52) (- 1074))))"
  by (simp add: rnd_def Let_def)

lemma pow2_add: "pow2 (p + q) = pow2 p * pow2 q"
  by (simp add: pow2_powi power_int_add)

lemma pow2_53: "pow2 53 = 9007199254740992" and pow2_52: "pow2 52 = 4503599627370496"
  by (simp_all add: pow2_def)

lemma pow2_le_53: "pow2 e \<le> pow2 53 \<Longrightarrow> e \<le> 53"
proof (rule ccontr)
  assume a: "pow2 e \<le> pow2 53" and "\<not> e \<le> 53"
  then have "54 \<le> e" by simp
  then have "pow2 54 \<le> pow2 e" by (rule pow2_mono)
  moreover have "pow2 53 < pow2 54" by (simp add: pow2_def)
  ultimately show False using a by simp
qed

lemma scaled_ge:
  fixes N a :: int
  assumes "0 < N" and "of_int a \<le> q"
  shows "real_of_int a \<le> of_int (half_even (q / (1 / of_int N))) * (1 / of_int N)"
proof -
  have n: "0 < real_of_int N" using assms(1) by simp
  have "real_of_int a * of_int N \<le> q * of_int N"
    using assms(2) n by (simp add: mult_right_mono)
  then have "of_int (a * N) \<le> q / (1 / of_int N)" by simp
  then have "a * N \<le> half_even (q / (1 / of_int N))" by (rule half_even_ge_int)
  then have "real_of_int (a * N) \<le> of_int (half_even (q / (1 / of_int N)))"
    by (simp only: of_int_le_iff)
  then have "real_of_int (a * N) / of_int N \<le> of_int (half_even (q / (1 / of_int N))) / of_int N"
    using n by (simp only: divide_right_mono less_imp_le)
  moreover have "real_of_int (a * N) / of_int N = of_int a"
    using n by simp
  ultimately show ?thesis by simp
qed

lemma scaled_le:
  fixes N b :: int
  assumes "0 < N" and "q \<le> of_int b"
  shows "of_int (half_even (q / (1 / of_int N))) * (1 / of_int N) \<le> real_of_int b"
proof -
  have n: "0 < real_of_int N" using assms(1) by simp
  have "q * of_int N \<le> real_of_int b * of_int N"
    using assms(2) n by (simp add: mult_right_mono)
  then have "q / (1 / of_int N) \<le> of_int (b * N)" by simp
  then have "half_even (q / (1 / of_int N)) \<le> b * N" by (rule half_even_le_int)
  then have "real_of_int (half_even (q / (1 / of_int N))) \<le> of_int (b * N)"
    by (simp only: of_int_le_iff)
  then have "of_int (half_even (q / (1 / of_int N))) / of_int N \<le> real_of_int (b * N) / of_int N"
    using n by (simp only: divide_right_mono less_imp_le)
  moreover have "real_of_int (b * N) / of_int N = of_int b"
    using n by simp
  ultimately show ?thesis by simp
qed

lemma scaled_magnitude_ge:
  assumes "1 \<le> a" and "of_int a \<le> q" and "a \<le> 2 ^ 53"
  shows "real_of_int a \<le> of_int (half_even (q / pow2 (max (ilog2 q - 52) (- 1074))))
                      * pow2 (max (ilog2 q - 52) (- 1074))"
proof -
  have q1: "1 \<le> q" using assms(1,2) by (smt (verit) of_int_1_le_iff)
  let ?e = "ilog2 q"
  let ?p = "max (?e - 52) (- 1074)"
  have e: "0 \<le> ?e" and le: "pow2 ?e \<le> q"
    using ilog2_bound [OF q1] by simp_all
  have p: "?p = ?e - 52" using e by simp
  show ?thesis
  proof (cases "?p \<le> 0")
    case True
    then obtain N :: int where N: "0 < N" "1 / pow2 ?p = of_int N"
      using pow2_neg_int by blast
    then have inv: "pow2 ?p = 1 / of_int N"
      by (metis div_by_1 divide_divide_eq_right mult.left_neutral)
    show ?thesis
      unfolding inv using N(1) assms(2) by (rule scaled_ge)
  next
    case False
    then have e53: "53 \<le> ?e" using p by simp
    have "pow2 52 * pow2 ?p = pow2 ?e"
      using pow2_add [of 52 ?p] p by simp
    then have "pow2 52 \<le> q / pow2 ?p"
      using le pow2_pos [of ?p] by (simp add: le_divide_eq)
    then have "of_int (2 ^ 52) \<le> q / pow2 ?p" by (simp add: pow2_52)
    then have "2 ^ 52 \<le> half_even (q / pow2 ?p)" by (rule half_even_ge_int)
    then have "real_of_int (2 ^ 52) \<le> of_int (half_even (q / pow2 ?p))" by linarith
    then have "real_of_int (2 ^ 52) * pow2 ?p \<le> of_int (half_even (q / pow2 ?p)) * pow2 ?p"
      using pow2_pos [of ?p] by (simp add: mult_right_mono)
    moreover have "real_of_int (2 ^ 52) * pow2 ?p = pow2 ?e"
      using pow2_add [of 52 ?p] p by (simp add: pow2_52)
    moreover have "pow2 53 \<le> pow2 ?e" using e53 by (rule pow2_mono)
    moreover have "of_int a \<le> pow2 53"
    proof -
      have "real_of_int a \<le> of_int (2 ^ 53)" using assms(3) by linarith
      then show ?thesis by (simp add: pow2_53)
    qed
    ultimately show ?thesis by linarith
  qed
qed

lemma ilog2_small: "0 < q \<Longrightarrow> q < 1 \<Longrightarrow> ilog2 q \<le> 0"
  using bits_nonneg [of "\<lceil>1 / q\<rceil> - 1"] by (simp add: ilog2_def)

lemma scaled_magnitude_le:
  assumes "0 < q" and "q \<le> of_int b" and "b \<le> 2 ^ 53"
  shows "of_int (half_even (q / pow2 (max (ilog2 q - 52) (- 1074))))
           * pow2 (max (ilog2 q - 52) (- 1074)) \<le> real_of_int b"
proof -
  let ?e = "ilog2 q"
  let ?p = "max (?e - 52) (- 1074)"
  have b53: "real_of_int b \<le> pow2 53"
  proof -
    have "real_of_int b \<le> of_int (2 ^ 53)" using assms(3) by linarith
    then show ?thesis by (simp add: pow2_53)
  qed
  have e53: "?e \<le> 53"
  proof (cases "q < 1")
    case True
    then show ?thesis using ilog2_small [OF assms(1)] by simp
  next
    case False
    then have "pow2 ?e \<le> q" using ilog2_bound [of q] by simp
    then have "pow2 ?e \<le> pow2 53" using assms(2) b53 by linarith
    then show ?thesis by (rule pow2_le_53)
  qed
  show ?thesis
  proof (cases "?p \<le> 0")
    case True
    then obtain N :: int where N: "0 < N" "1 / pow2 ?p = of_int N"
      using pow2_neg_int by blast
    then have inv: "pow2 ?p = 1 / of_int N"
      by (metis div_by_1 divide_divide_eq_right mult.left_neutral)
    show ?thesis
      unfolding inv using N(1) assms(2) by (rule scaled_le)
  next
    case False
    then have p1: "?p = 1" and e: "?e = 53" using e53 by simp_all
    have "\<not> q < 1" using ilog2_small [OF assms(1)] e by auto
    then have "pow2 53 \<le> q" using ilog2_bound [of q] e by simp
    then have q: "q = pow2 53" and b: "real_of_int b = pow2 53"
      using assms(2) b53 by simp_all
    have "q / pow2 1 = of_int (2 ^ 52)"
      by (simp add: q pow2_def)
    then have "half_even (q / pow2 1) = 2 ^ 52"
      by (simp only: half_even_of_int)
    then show ?thesis
      by (simp add: p1 b) (simp add: pow2_def)
  qed
qed

lemma le_neg: "le (neg x) (neg y) = le y x"
  by (cases x; cases y) (simp_all add: neg_def)

lemma neg_neg: "neg (neg x) = x"
  by (cases x) (simp_all add: neg_def)

lemma neg_eq_Fin: "neg x = Fin r \<Longrightarrow> x = Fin (- r)"
  by (cases x) (simp_all add: neg_def)

lemma half_even_nonneg: "0 \<le> z \<Longrightarrow> 0 \<le> half_even z"
  using half_even_ge_int [of 0 z] by simp

lemma rnd_ge_whole:
  assumes "real_of_int a \<le> q" and "\<bar>a\<bar> \<le> 2 ^ 53"
  shows "le (Fin (of_int a)) (rnd q)"
proof -
  consider "q = 0" | "0 < q" | "q < 0" by linarith
  then show ?thesis
  proof cases
    case 1
    then show ?thesis using assms(1) by (simp add: rnd_zero)
  next
    case 2
    let ?r = "of_int (half_even (q / pow2 (max (ilog2 q - 52) (- 1074))))
                * pow2 (max (ilog2 q - 52) (- 1074))"
    have r0: "0 \<le> ?r"
      using 2 pow2_pos [of "max (ilog2 q - 52) (- 1074)"] half_even_nonneg
      by simp
    have ar: "real_of_int a \<le> ?r"
    proof (cases "1 \<le> a")
      case True
      then show ?thesis using assms by (intro scaled_magnitude_ge) simp_all
    next
      case False
      then have "real_of_int a \<le> 0" by simp
      then show ?thesis using r0 by linarith
    qed
    have "rnd q = (if pow2 1024 \<le> ?r then PosInf else Fin ?r)"
      using 2 by (rule rnd_positive_form)
    then show ?thesis
      using ar by (cases "pow2 1024 \<le> ?r") simp_all
  next
    case 3
    let ?r = "of_int (half_even (- q / pow2 (max (ilog2 (- q) - 52) (- 1074))))
                * pow2 (max (ilog2 (- q) - 52) (- 1074))"
    have pos: "0 < - q" using 3 by simp
    have up: "- q \<le> real_of_int (- a)" using assms(1) by simp
    have "?r \<le> real_of_int (- a)"
      using pos up assms(2) by (intro scaled_magnitude_le) simp_all
    moreover have "real_of_int (- a) \<le> pow2 53"
    proof -
      have "real_of_int (- a) \<le> of_int (2 ^ 53)" using assms(2) by linarith
      then show ?thesis by (simp add: pow2_53)
    qed
    moreover have "pow2 53 < pow2 1024" by (simp add: pow2_def)
    ultimately have small: "\<not> pow2 1024 \<le> ?r" and ra: "real_of_int a \<le> - ?r"
      by simp_all
    have "rnd (- q) = (if pow2 1024 \<le> ?r then PosInf else Fin ?r)"
      using pos by (rule rnd_positive_form)
    then have "rnd (- q) = Fin ?r" using small by simp
    then have "neg (rnd q) = Fin ?r" by (simp only: rnd_minus)
    then have "rnd q = Fin (- ?r)"
      by (rule neg_eq_Fin)
    then show ?thesis using ra by simp
  qed
qed

lemma rnd_le_whole:
  assumes "q \<le> real_of_int b" and "\<bar>b\<bar> \<le> 2 ^ 53"
  shows "le (rnd q) (Fin (of_int b))"
proof -
  have "le (Fin (of_int (- b))) (rnd (- q))"
    using assms by (intro rnd_ge_whole) simp_all
  then have "le (neg (Fin (of_int b))) (neg (rnd q))"
    by (simp add: rnd_minus neg_def)
  then show ?thesis by (simp only: le_neg)
qed

lemma le_antisym: "le x y \<Longrightarrow> le y x \<Longrightarrow> x = y"
  by (cases x; cases y) simp_all

lemma rnd_whole: "\<bar>n\<bar> \<le> 2 ^ 53 \<Longrightarrow> rnd (of_int n) = Fin (of_int n)"
proof -
  assume n: "\<bar>n\<bar> \<le> 2 ^ 53"
  have "le (Fin (of_int n)) (rnd (of_int n))" using n by (intro rnd_ge_whole) simp_all
  moreover have "le (rnd (of_int n)) (Fin (of_int n))" using n by (intro rnd_le_whole) simp_all
  ultimately show ?thesis by (rule le_antisym [symmetric])
qed

section \<open>The rolling window\<close>

lemma held_addReading:
  "held (addReading s t h now) =
     (let pushed = held s @ [\<lparr>temperature = t, humidity = h, timestamp = now\<rparr>]
      in if length pushed > maxReadings then tl pushed else pushed)"
  by (simp add: held_def addReading_def Let_def)

lemma held_addReading_room:
  "length (held s) < maxReadings \<Longrightarrow>
   held (addReading s t h now) = held s @ [reading_of (t, h, now)]"
  by (simp add: held_addReading reading_of_def Let_def)

lemma held_addReading_full:
  "maxReadings \<le> length (held s) \<Longrightarrow>
   held (addReading s t h now) = tl (held s) @ [reading_of (t, h, now)]"
  by (cases "held s") (simp_all add: held_addReading reading_of_def Let_def maxReadings_def)

lemma addReadings_append:
  "addReadings s (calls @ [(t, h, now)]) = addReading (addReadings s calls) t h now"
  by (induction s calls rule: addReadings.induct) simp_all

lemma held_addReadings_new:
  "held (addReadings new_SensorHistoryService calls)
     = map reading_of (drop (length calls - maxReadings) calls)"
proof (induction calls rule: rev_induct)
  case Nil
  show ?case by (simp add: held_def new_SensorHistoryService_def)
next
  case (snoc c calls)
  obtain t h now where c: "c = (t, h, now)" by (cases c) auto
  let ?s = "addReadings new_SensorHistoryService calls"
  have len: "length (held ?s) = min (length calls) maxReadings"
    by (simp add: snoc.IH)
  show ?case
  proof (cases "length calls < maxReadings")
    case True
    then have "held (addReading ?s t h now) = held ?s @ [reading_of c]"
      using len by (simp add: held_addReading_room c)
    with True show ?thesis
      by (simp add: addReadings_append c snoc.IH)
  next
    case False
    then have le: "maxReadings \<le> length calls" by simp
    have "held (addReading ?s t h now) = tl (held ?s) @ [reading_of c]"
      using len le by (simp add: held_addReading_full c)
    also have "tl (held ?s) = map reading_of (drop (Suc (length calls - maxReadings)) calls)"
      by (simp add: snoc.IH map_tl [symmetric] drop_Suc tl_drop)
    also have "Suc (length calls - maxReadings) = Suc (length calls) - maxReadings"
      using le by simp
    finally show ?thesis
      using le by (simp add: addReadings_append c maxReadings_def)
  qed
qed

text \<open>
  C1. Starting from the empty window, after any sequence of \<open>addReading\<close> calls the
  window holds \<open>min N 100\<close> readings, namely the last 100 pushed, in arrival order; one
  more call appends its reading, and drops the reading at index 0 exactly when 100 were
  held already.
\<close>

theorem rolling_window_keeps_latest:
  "length (held (addReadings new_SensorHistoryService calls)) = min (length calls) maxReadings
   \<and> held (addReadings new_SensorHistoryService calls)
       = map reading_of (drop (length calls - maxReadings) calls)
   \<and> held (addReadings new_SensorHistoryService (calls @ [c]))
       = (if length calls < maxReadings
          then held (addReadings new_SensorHistoryService calls) @ [reading_of c]
          else tl (held (addReadings new_SensorHistoryService calls)) @ [reading_of c])
   \<and> maxReadings = 100"
proof -
  let ?s = "addReadings new_SensorHistoryService calls"
  obtain t h now where c: "c = (t, h, now)" by (cases c) auto
  have l: "length (held ?s) = min (length calls) maxReadings"
    by (simp add: held_addReadings_new)
  have step: "held (addReadings new_SensorHistoryService (calls @ [c]))
       = (if length calls < maxReadings then held ?s @ [reading_of c]
          else tl (held ?s) @ [reading_of c])"
    using l by (simp add: addReadings_append c held_addReading_room held_addReading_full)
  show ?thesis
    using l step held_addReadings_new [of calls] by (simp add: maxReadings_def)
qed


section \<open>Window statistics\<close>

subsection \<open>Math.max and Math.min\<close>

lemma Math_max_from_bounds:
  "highest \<noteq> NaN \<Longrightarrow> NaN \<notin> set xs \<Longrightarrow>
   le highest (Math_max_from highest xs)
   \<and> (\<forall>x \<in> set xs. le x (Math_max_from highest xs))
   \<and> (Math_max_from highest xs = highest \<or> Math_max_from highest xs \<in> set xs)"
proof (induction xs arbitrary: highest)
  case Nil
  then show ?case by (simp add: le_refl)
next
  case (Cons x xs)
  let ?h = "if lt highest x then x else highest"
  have x: "x \<noteq> NaN" and xs: "NaN \<notin> set xs"
    using Cons.prems(2) by auto
  have h: "?h \<noteq> NaN"
    using x Cons.prems(1) by simp
  have step: "Math_max_from highest (x # xs) = Math_max_from ?h xs"
    using x by simp
  have ih: "le ?h (Math_max_from ?h xs)
            \<and> (\<forall>y \<in> set xs. le y (Math_max_from ?h xs))
            \<and> (Math_max_from ?h xs = ?h \<or> Math_max_from ?h xs \<in> set xs)"
    using h xs by (rule Cons.IH)
  have up: "le highest ?h \<and> le x ?h"
  proof (cases "lt highest x")
    case True
    then show ?thesis using le_refl [OF x] by (simp add: lt_def)
  next
    case False
    then show ?thesis
      using le_refl [OF Cons.prems(1)] not_lt_le [OF Cons.prems(1) x] by simp
  qed
  have top: "le highest (Math_max_from ?h xs)" and here: "le x (Math_max_from ?h xs)"
    using ih up le_trans by blast+
  have mem: "Math_max_from ?h xs = highest \<or> Math_max_from ?h xs \<in> set (x # xs)"
    using ih by (cases "lt highest x") auto
  show ?case
    unfolding step using ih top here mem by simp
qed

lemma Math_min_from_bounds:
  "lowest \<noteq> NaN \<Longrightarrow> NaN \<notin> set xs \<Longrightarrow>
   le (Math_min_from lowest xs) lowest
   \<and> (\<forall>x \<in> set xs. le (Math_min_from lowest xs) x)
   \<and> (Math_min_from lowest xs = lowest \<or> Math_min_from lowest xs \<in> set xs)"
proof (induction xs arbitrary: lowest)
  case Nil
  then show ?case by (simp add: le_refl)
next
  case (Cons x xs)
  let ?l = "if lt x lowest then x else lowest"
  have x: "x \<noteq> NaN" and xs: "NaN \<notin> set xs"
    using Cons.prems(2) by auto
  have l: "?l \<noteq> NaN"
    using x Cons.prems(1) by simp
  have step: "Math_min_from lowest (x # xs) = Math_min_from ?l xs"
    using x by simp
  have ih: "le (Math_min_from ?l xs) ?l
            \<and> (\<forall>y \<in> set xs. le (Math_min_from ?l xs) y)
            \<and> (Math_min_from ?l xs = ?l \<or> Math_min_from ?l xs \<in> set xs)"
    using l xs by (rule Cons.IH)
  have down: "le ?l lowest \<and> le ?l x"
  proof (cases "lt x lowest")
    case True
    then show ?thesis using le_refl [OF x] by (simp add: lt_def)
  next
    case False
    then show ?thesis
      using le_refl [OF Cons.prems(1)] not_lt_le [OF x Cons.prems(1)] by simp
  qed
  have bot: "le (Math_min_from ?l xs) lowest" and here: "le (Math_min_from ?l xs) x"
    using ih down le_trans by blast+
  have mem: "Math_min_from ?l xs = lowest \<or> Math_min_from ?l xs \<in> set (x # xs)"
    using ih by (cases "lt x lowest") auto
  show ?case
    unfolding step using ih bot here mem by simp
qed

lemma le_NegInf: "le x NegInf \<Longrightarrow> x = NegInf"
  by (cases x) simp_all

lemma PosInf_le: "le PosInf x \<Longrightarrow> x = PosInf"
  by (cases x) simp_all

lemma Math_max_bounds:
  assumes "xs \<noteq> []" and "NaN \<notin> set xs"
  shows "(\<forall>x \<in> set xs. le x (Math_max xs)) \<and> Math_max xs \<in> set xs"
proof -
  have b: "(\<forall>x \<in> set xs. le x (Math_max xs)) \<and> (Math_max xs = NegInf \<or> Math_max xs \<in> set xs)"
    using Math_max_from_bounds [of NegInf xs] assms(2) by (simp add: Math_max_def)
  obtain y where y: "y \<in> set xs" using assms(1) by (cases xs) auto
  show ?thesis
  proof (cases "Math_max xs = NegInf")
    case True
    with b y have "le y NegInf" by auto
    then have "y = NegInf" by (rule le_NegInf)
    with y True b show ?thesis by simp
  next
    case False
    with b show ?thesis by simp
  qed
qed

lemma Math_min_bounds:
  assumes "xs \<noteq> []" and "NaN \<notin> set xs"
  shows "(\<forall>x \<in> set xs. le (Math_min xs) x) \<and> Math_min xs \<in> set xs"
proof -
  have b: "(\<forall>x \<in> set xs. le (Math_min xs) x) \<and> (Math_min xs = PosInf \<or> Math_min xs \<in> set xs)"
    using Math_min_from_bounds [of PosInf xs] assms(2) by (simp add: Math_min_def)
  obtain y where y: "y \<in> set xs" using assms(1) by (cases xs) auto
  show ?thesis
  proof (cases "Math_min xs = PosInf")
    case True
    with b y have "le PosInf y" by auto
    then have "y = PosInf" by (rule PosInf_le)
    with y True b show ?thesis by simp
  next
    case False
    with b show ?thesis by simp
  qed
qed

subsection \<open>Three readings of 12.3 degrees and 45.3 percent\<close>

lemma rnd_12_3: "rnd (123 / 10) = Fin (3462142213541069 / 2 ^ 48)"
  by (simp add: rnd_eval)

lemma rnd_45_3: "rnd (453 / 10) = Fin (3187704111248179 / 2 ^ 46)"
  by (simp add: rnd_eval)

lemma sum_12_3:
  "sum_of [Fin (3462142213541069 / 2 ^ 48), Fin (3462142213541069 / 2 ^ 48),
           Fin (3462142213541069 / 2 ^ 48)] = Fin (1298303330077901 / 2 ^ 45)"
  by (simp add: sum_of_def rnd_eval)

lemma avg_12_3: "div_length (Fin (1298303330077901 / 2 ^ 45)) 3 = Fin (6924284427082139 / 2 ^ 49)"
  by (simp add: div_length_def rnd_eval)

lemma sum_45_3:
  "sum_of [Fin (3187704111248179 / 2 ^ 46), Fin (3187704111248179 / 2 ^ 46),
           Fin (3187704111248179 / 2 ^ 46)] = Fin (1195389041718067 / 2 ^ 43)"
  by (simp add: sum_of_def rnd_eval)

lemma avg_45_3: "div_length (Fin (1195389041718067 / 2 ^ 43)) 3 = Fin (6375408222496357 / 2 ^ 47)"
  by (simp add: div_length_def rnd_eval)

subsection \<open>The average of whole readings\<close>

lemma sum_of_whole:
  "\<bar>acc\<bar> + sum_list (map abs ks) \<le> 2 ^ 53 \<Longrightarrow>
   foldl add (Fin (of_int acc)) (map (\<lambda>k. Fin (of_int k)) ks) = Fin (of_int (acc + sum_list ks))"
proof (induction ks arbitrary: acc)
  case Nil
  show ?case by simp
next
  case (Cons k ks)
  have b: "\<bar>acc + k\<bar> \<le> 2 ^ 53"
  proof -
    have "0 \<le> sum_list (map abs ks)" by (induction ks) simp_all
    then show ?thesis using Cons.prems by simp
  qed
  have "add (Fin (of_int acc)) (Fin (of_int k)) = rnd (of_int (acc + k))"
    by simp
  also have "\<dots> = Fin (of_int (acc + k))"
    using b by (rule rnd_whole)
  finally have step: "add (Fin (of_int acc)) (Fin (of_int k)) = Fin (of_int (acc + k))" .
  have "\<bar>acc + k\<bar> + sum_list (map abs ks) \<le> 2 ^ 53"
    using Cons.prems by simp
  then have "foldl add (Fin (of_int (acc + k))) (map (\<lambda>k. Fin (of_int k)) ks)
      = Fin (of_int (acc + k + sum_list ks))"
    by (rule Cons.IH)
  then show ?case
    by (simp only: list.map foldl_Cons step sum_list.Cons add.assoc)
qed

lemma sum_abs_bound:
  fixes ks :: "int list"
  shows "\<forall>k \<in> set ks. \<bar>k\<bar> * n \<le> B \<Longrightarrow> sum_list (map abs ks) * n \<le> int (length ks) * B"
  by (induction ks) (simp_all add: algebra_simps)

lemma sum_list_ge:
  fixes ks :: "int list"
  shows "\<forall>k \<in> set ks. lo \<le> k \<Longrightarrow> lo * int (length ks) \<le> sum_list ks"
  by (induction ks) (simp_all add: algebra_simps)

lemma sum_list_le:
  fixes ks :: "int list"
  shows "\<forall>k \<in> set ks. k \<le> hi \<Longrightarrow> sum_list ks \<le> hi * int (length ks)"
  by (induction ks) (simp_all add: algebra_simps)

lemma whole_within_Fin:
  "whole_within x n \<Longrightarrow> \<exists>k :: int. x = Fin (of_int k) \<and> \<bar>k\<bar> * int n \<le> 2 ^ 53"
proof (cases x)
  case (Fin r)
  assume "whole_within x n"
  then have i: "of_int \<lfloor>r\<rfloor> = r" and b: "\<bar>r\<bar> * of_nat n \<le> 2 ^ 53"
    by (simp_all add: whole_within_def Fin)
  have "real_of_int (\<bar>\<lfloor>r\<rfloor>\<bar> * int n) = \<bar>r\<bar> * of_nat n"
    using i by (metis of_int_abs of_int_mult of_int_of_nat_eq)
  with b have "real_of_int (\<bar>\<lfloor>r\<rfloor>\<bar> * int n) \<le> 2 ^ 53"
    by (simp only:)
  then have "\<bar>\<lfloor>r\<rfloor>\<bar> * int n \<le> 2 ^ 53"
    by (simp only: of_int_le_numeral_power_cancel_iff)
  then show ?thesis using i Fin by metis
qed (simp_all add: whole_within_def)

lemma whole_list:
  "\<forall>x \<in> set xs. whole_within x n \<Longrightarrow>
   \<exists>ks :: int list. xs = map (\<lambda>k. Fin (of_int k)) ks \<and> (\<forall>k \<in> set ks. \<bar>k\<bar> * int n \<le> 2 ^ 53)"
proof (induction xs)
  case Nil
  show ?case by simp
next
  case (Cons x xs)
  then obtain ks :: "int list" where ks: "xs = map (\<lambda>k. Fin (of_int k)) ks"
      "\<forall>k \<in> set ks. \<bar>k\<bar> * int n \<le> 2 ^ 53"
    by auto
  obtain k :: int where k: "x = Fin (of_int k)" "\<bar>k\<bar> * int n \<le> 2 ^ 53"
    using Cons.prems whole_within_Fin by (metis list.set_intros(1))
  have "x # xs = map (\<lambda>k. Fin (of_int k)) (k # ks) \<and> (\<forall>j \<in> set (k # ks). \<bar>j\<bar> * int n \<le> 2 ^ 53)"
    using ks k by simp
  then show ?case by (rule exI)
qed

lemma mean_of_whole_between:
  assumes "xs \<noteq> []" and "\<forall>x \<in> set xs. whole_within x (length xs)"
  shows "le (Math_min xs) (div_length (sum_of xs) (length xs))
       \<and> le (div_length (sum_of xs) (length xs)) (Math_max xs)"
proof -
  let ?n = "length xs"
  obtain ks :: "int list" where xs: "xs = map (\<lambda>k. Fin (of_int k)) ks"
      and bound: "\<forall>k \<in> set ks. \<bar>k\<bar> * int ?n \<le> 2 ^ 53"
    using whole_list [OF assms(2)] by blast
  have len: "length ks = ?n" by (simp add: xs)
  have n: "0 < ?n" using assms(1) by simp
  have n1: "1 \<le> int ?n" using assms(1) by (cases xs) simp_all
  have each: "\<forall>k \<in> set ks. \<bar>k\<bar> \<le> 2 ^ 53"
  proof
    fix k assume "k \<in> set ks"
    then have "\<bar>k\<bar> * int ?n \<le> 2 ^ 53" using bound by simp
    moreover have "\<bar>k\<bar> * 1 \<le> \<bar>k\<bar> * int ?n"
      using n1 by (intro mult_left_mono) simp_all
    ultimately show "\<bar>k\<bar> \<le> 2 ^ 53" by simp
  qed
  have total: "sum_list (map abs ks) \<le> 2 ^ 53"
  proof -
    have "sum_list (map abs ks) * int ?n \<le> int (length ks) * 2 ^ 53"
      using bound by (rule sum_abs_bound)
    then have "sum_list (map abs ks) * int ?n \<le> 2 ^ 53 * int ?n"
      by (simp add: len mult.commute)
    then show ?thesis using n by simp
  qed
  have sum: "sum_of xs = Fin (of_int (sum_list ks))"
    using sum_of_whole [of 0 ks] total by (simp add: sum_of_def xs)
  have avg: "div_length (sum_of xs) ?n = rnd (of_int (sum_list ks) / of_nat ?n)"
    by (simp add: sum div_length_def)
  have nn: "NaN \<notin> set xs" by (auto simp: xs)
  have "Math_min xs \<in> set xs" and lo_all: "\<forall>x \<in> set xs. le (Math_min xs) x"
    using Math_min_bounds [OF assms(1) nn] by simp_all
  then obtain lo where lo: "Math_min xs = Fin (of_int lo)" "lo \<in> set ks"
    by (auto simp: xs)
  have "Math_max xs \<in> set xs" and hi_all: "\<forall>x \<in> set xs. le x (Math_max xs)"
    using Math_max_bounds [OF assms(1) nn] by simp_all
  then obtain hi where hi: "Math_max xs = Fin (of_int hi)" "hi \<in> set ks"
    by (auto simp: xs)
  have "\<forall>k \<in> set ks. lo \<le> k"
    using lo_all unfolding lo(1) by (simp add: xs)
  then have "lo * int (length ks) \<le> sum_list ks" by (rule sum_list_ge)
  then have "real_of_int (lo * int ?n) \<le> of_int (sum_list ks)"
    by (simp only: len of_int_le_iff)
  then have below: "real_of_int lo \<le> of_int (sum_list ks) / of_nat ?n"
    using n by (simp add: le_divide_eq)
  have "\<forall>k \<in> set ks. k \<le> hi"
    using hi_all unfolding hi(1) by (simp add: xs)
  then have "sum_list ks \<le> hi * int (length ks)" by (rule sum_list_le)
  then have "real_of_int (sum_list ks) \<le> of_int (hi * int ?n)"
    by (simp only: len of_int_le_iff)
  then have above: "of_int (sum_list ks) / of_nat ?n \<le> real_of_int hi"
    using n by (simp add: divide_le_eq)
  have "le (Fin (of_int lo)) (rnd (of_int (sum_list ks) / of_nat ?n))"
    using below each lo(2) by (intro rnd_ge_whole) simp_all
  moreover have "le (rnd (of_int (sum_list ks) / of_nat ?n)) (Fin (of_int hi))"
    using above each hi(2) by (intro rnd_le_whole) simp_all
  ultimately show ?thesis
    by (simp add: avg lo(1) hi(1))
qed

subsection \<open>The six statistics\<close>

lemma held_new: "held new_SensorHistoryService = []"
  by (simp add: held_def new_SensorHistoryService_def)

lemma held_three:
  "held (addReadings new_SensorHistoryService [(t, h, 0), (t, h, 1), (t, h, 2)]) =
     [\<lparr>temperature = t, humidity = h, timestamp = 0\<rparr>,
      \<lparr>temperature = t, humidity = h, timestamp = 1\<rparr>,
      \<lparr>temperature = t, humidity = h, timestamp = 2\<rparr>]"
  by (simp add: held_addReading held_new Let_def maxReadings_def)

text \<open>
  C7, as the code has it. On an empty window the six statistics are 0. On a non-empty
  window without NaN readings the minimum and the maximum of each dimension are held
  readings and every held reading lies between them. The average is the rounded sum of
  the held readings divided by their count. When the readings are whole numbers small
  enough to add up without rounding, the average lies between minimum and maximum; for
  other readings its place is left open.
\<close>

theorem window_stats:
  "(held s = [] \<longrightarrow>
      getAverageTemperature s = Fin 0 \<and> getMaxTemperature s = Fin 0
      \<and> getMinTemperature s = Fin 0 \<and> getAverageHumidity s = Fin 0
      \<and> getMaxHumidity s = Fin 0 \<and> getMinHumidity s = Fin 0)
   \<and> (held s \<noteq> [] \<and> (\<forall>r \<in> set (held s). temperature r \<noteq> NaN \<and> humidity r \<noteq> NaN) \<longrightarrow>
      (\<forall>r \<in> set (held s).
          le (getMinTemperature s) (temperature r) \<and> le (temperature r) (getMaxTemperature s)
          \<and> le (getMinHumidity s) (humidity r) \<and> le (humidity r) (getMaxHumidity s))
      \<and> getMinTemperature s \<in> temperature ` set (held s)
      \<and> getMaxTemperature s \<in> temperature ` set (held s)
      \<and> getMinHumidity s \<in> humidity ` set (held s)
      \<and> getMaxHumidity s \<in> humidity ` set (held s)
      \<and> le (getMinTemperature s) (getMaxTemperature s)
      \<and> le (getMinHumidity s) (getMaxHumidity s)
      \<and> getAverageTemperature s
          = div_length (sum_of (map temperature (held s))) (length (held s))
      \<and> getAverageHumidity s
          = div_length (sum_of (map humidity (held s))) (length (held s)))
   \<and> (held s \<noteq> []
        \<and> (\<forall>r \<in> set (held s). whole_within (temperature r) (length (held s))
                                  \<and> whole_within (humidity r) (length (held s))) \<longrightarrow>
      le (getMinTemperature s) (getAverageTemperature s)
      \<and> le (getAverageTemperature s) (getMaxTemperature s)
      \<and> le (getMinHumidity s) (getAverageHumidity s)
      \<and> le (getAverageHumidity s) (getMaxHumidity s))"
proof (intro conjI impI)
  assume e: "held s = []"
  show "getAverageTemperature s = Fin 0" by (simp add: getAverageTemperature_def e)
  show "getMaxTemperature s = Fin 0" by (simp add: getMaxTemperature_def e)
  show "getMinTemperature s = Fin 0" by (simp add: getMinTemperature_def e)
  show "getAverageHumidity s = Fin 0" by (simp add: getAverageHumidity_def e)
  show "getMaxHumidity s = Fin 0" by (simp add: getMaxHumidity_def e)
  show "getMinHumidity s = Fin 0" by (simp add: getMinHumidity_def e)
next
  assume a: "held s \<noteq> [] \<and> (\<forall>r \<in> set (held s). temperature r \<noteq> NaN \<and> humidity r \<noteq> NaN)"
  let ?ts = "map temperature (held s)" and ?hs = "map humidity (held s)"
  have ne: "?ts \<noteq> []" "?hs \<noteq> []" using a by simp_all
  have nn: "NaN \<notin> set ?ts" "NaN \<notin> set ?hs" using a by auto
  have maxT: "getMaxTemperature s = Math_max ?ts" and minT: "getMinTemperature s = Math_min ?ts"
    and maxH: "getMaxHumidity s = Math_max ?hs" and minH: "getMinHumidity s = Math_min ?hs"
    using a by (simp_all add: getMaxTemperature_def getMinTemperature_def
        getMaxHumidity_def getMinHumidity_def Let_def)
  note bT = Math_max_bounds [OF ne(1) nn(1)] Math_min_bounds [OF ne(1) nn(1)]
  note bH = Math_max_bounds [OF ne(2) nn(2)] Math_min_bounds [OF ne(2) nn(2)]
  show "\<forall>r \<in> set (held s).
          le (getMinTemperature s) (temperature r) \<and> le (temperature r) (getMaxTemperature s)
          \<and> le (getMinHumidity s) (humidity r) \<and> le (humidity r) (getMaxHumidity s)"
    using bT bH by (simp add: maxT minT maxH minH)
  show "getMinTemperature s \<in> temperature ` set (held s)"
    using bT by (simp add: minT)
  show "getMaxTemperature s \<in> temperature ` set (held s)"
    using bT by (simp add: maxT)
  show "getMinHumidity s \<in> humidity ` set (held s)"
    using bH by (simp add: minH)
  show "getMaxHumidity s \<in> humidity ` set (held s)"
    using bH by (simp add: maxH)
  obtain r where r: "r \<in> set (held s)"
    using a by (cases "held s") auto
  have "le (Math_min ?ts) (temperature r)" and "le (temperature r) (Math_max ?ts)"
    using bT r by simp_all
  then show "le (getMinTemperature s) (getMaxTemperature s)"
    unfolding maxT minT by (rule le_trans)
  have "le (Math_min ?hs) (humidity r)" and "le (humidity r) (Math_max ?hs)"
    using bH r by simp_all
  then show "le (getMinHumidity s) (getMaxHumidity s)"
    unfolding maxH minH by (rule le_trans)
  show "getAverageTemperature s = div_length (sum_of ?ts) (length (held s))"
    using a by (simp add: getAverageTemperature_def Let_def)
  show "getAverageHumidity s = div_length (sum_of ?hs) (length (held s))"
    using a by (simp add: getAverageHumidity_def Let_def)
next
  assume w: "held s \<noteq> []
        \<and> (\<forall>r \<in> set (held s). whole_within (temperature r) (length (held s))
                                  \<and> whole_within (humidity r) (length (held s)))"
  let ?ts = "map temperature (held s)" and ?hs = "map humidity (held s)"
  have "?ts \<noteq> []" and "\<forall>x \<in> set ?ts. whole_within x (length ?ts)"
    using w by simp_all
  then have mT: "le (Math_min ?ts) (div_length (sum_of ?ts) (length ?ts))
       \<and> le (div_length (sum_of ?ts) (length ?ts)) (Math_max ?ts)"
    by (rule mean_of_whole_between)
  have "?hs \<noteq> []" and "\<forall>x \<in> set ?hs. whole_within x (length ?hs)"
    using w by simp_all
  then have mH: "le (Math_min ?hs) (div_length (sum_of ?hs) (length ?hs))
       \<and> le (div_length (sum_of ?hs) (length ?hs)) (Math_max ?hs)"
    by (rule mean_of_whole_between)
  show "le (getMinTemperature s) (getAverageTemperature s)"
    using w mT by (simp add: getMinTemperature_def getAverageTemperature_def Let_def)
  show "le (getAverageTemperature s) (getMaxTemperature s)"
    using w mT by (simp add: getMaxTemperature_def getAverageTemperature_def Let_def)
  show "le (getMinHumidity s) (getAverageHumidity s)"
    using w mH by (simp add: getMinHumidity_def getAverageHumidity_def Let_def)
  show "le (getAverageHumidity s) (getMaxHumidity s)"
    using w mH by (simp add: getMaxHumidity_def getAverageHumidity_def Let_def)
qed

text \<open>
  The theorem at the empty window, at the window of three readings of 12.3 degrees and
  45.3 percent, and at a window of three whole readings.
\<close>

theorem window_stats_witness:
  "held new_SensorHistoryService = []
   \<and> getAverageTemperature new_SensorHistoryService = Fin 0
   \<and> getMinHumidity new_SensorHistoryService = Fin 0
   \<and> held (addReadings new_SensorHistoryService
        [(Fin (3462142213541069 / 2 ^ 48), Fin (3187704111248179 / 2 ^ 46), 0),
         (Fin (3462142213541069 / 2 ^ 48), Fin (3187704111248179 / 2 ^ 46), 1),
         (Fin (3462142213541069 / 2 ^ 48), Fin (3187704111248179 / 2 ^ 46), 2)]) \<noteq> []
   \<and> le (getMinTemperature (addReadings new_SensorHistoryService
        [(Fin (3462142213541069 / 2 ^ 48), Fin (3187704111248179 / 2 ^ 46), 0),
         (Fin (3462142213541069 / 2 ^ 48), Fin (3187704111248179 / 2 ^ 46), 1),
         (Fin (3462142213541069 / 2 ^ 48), Fin (3187704111248179 / 2 ^ 46), 2)]))
        (getMaxTemperature (addReadings new_SensorHistoryService
        [(Fin (3462142213541069 / 2 ^ 48), Fin (3187704111248179 / 2 ^ 46), 0),
         (Fin (3462142213541069 / 2 ^ 48), Fin (3187704111248179 / 2 ^ 46), 1),
         (Fin (3462142213541069 / 2 ^ 48), Fin (3187704111248179 / 2 ^ 46), 2)]))
   \<and> whole_within (Fin 20) 3 \<and> whole_within (Fin 45) 3
   \<and> held (addReadings new_SensorHistoryService
        [(Fin 20, Fin 45, 0), (Fin 20, Fin 45, 1), (Fin 20, Fin 45, 2)]) \<noteq> []
   \<and> le (getMinTemperature (addReadings new_SensorHistoryService
            [(Fin 20, Fin 45, 0), (Fin 20, Fin 45, 1), (Fin 20, Fin 45, 2)]))
         (getAverageTemperature (addReadings new_SensorHistoryService
            [(Fin 20, Fin 45, 0), (Fin 20, Fin 45, 1), (Fin 20, Fin 45, 2)]))
   \<and> le (getAverageHumidity (addReadings new_SensorHistoryService
            [(Fin 20, Fin 45, 0), (Fin 20, Fin 45, 1), (Fin 20, Fin 45, 2)]))
         (getMaxHumidity (addReadings new_SensorHistoryService
            [(Fin 20, Fin 45, 0), (Fin 20, Fin 45, 1), (Fin 20, Fin 45, 2)]))"
proof -
  let ?s = "addReadings new_SensorHistoryService
        [(Fin (3462142213541069 / 2 ^ 48), Fin (3187704111248179 / 2 ^ 46), 0),
         (Fin (3462142213541069 / 2 ^ 48), Fin (3187704111248179 / 2 ^ 46), 1),
         (Fin (3462142213541069 / 2 ^ 48), Fin (3187704111248179 / 2 ^ 46), 2)]"
  let ?w = "addReadings new_SensorHistoryService
        [(Fin 20, Fin 45, 0), (Fin 20, Fin 45, 1), (Fin 20, Fin 45, 2)]"
  have e: "held new_SensorHistoryService = []"
    by (rule held_new)
  have n: "held ?s \<noteq> [] \<and> (\<forall>r \<in> set (held ?s). temperature r \<noteq> NaN \<and> humidity r \<noteq> NaN)"
    by (simp only: held_three) simp
  have ww: "whole_within (Fin 20) 3" "whole_within (Fin 45) 3"
    by (simp_all add: whole_within_def)
  have w: "held ?w \<noteq> []
        \<and> (\<forall>r \<in> set (held ?w). whole_within (temperature r) (length (held ?w))
                                  \<and> whole_within (humidity r) (length (held ?w)))"
    by (simp only: held_three) (simp add: whole_within_def)
  have first: "getAverageTemperature new_SensorHistoryService = Fin 0
       \<and> getMinHumidity new_SensorHistoryService = Fin 0"
    using e window_stats [of new_SensorHistoryService] by blast
  have second: "le (getMinTemperature ?s) (getMaxTemperature ?s)"
    using n window_stats [of ?s] by blast
  have third: "le (getMinTemperature ?w) (getAverageTemperature ?w)
       \<and> le (getAverageHumidity ?w) (getMaxHumidity ?w)"
    using w window_stats [of ?w] by blast
  show ?thesis
    using e n ww w first second third by (intro conjI) simp_all
qed

text \<open>
  Three readings of 12.3 degrees and 45.3 percent (the doubles nearest to these decimals):
  the sum \<open>12.3 + 12.3 + 12.3\<close> rounds up, and a third of it is the double above 12.3, so
  the average temperature exceeds the maximum; the humidity sum rounds down, and the
  average humidity is below the minimum.
\<close>

theorem average_outside_min_max:
  "rnd (123 / 10) = Fin (3462142213541069 / 2 ^ 48)
   \<and> rnd (453 / 10) = Fin (3187704111248179 / 2 ^ 46)
   \<and> held (addReadings new_SensorHistoryService
        [(Fin (3462142213541069 / 2 ^ 48), Fin (3187704111248179 / 2 ^ 46), 0),
         (Fin (3462142213541069 / 2 ^ 48), Fin (3187704111248179 / 2 ^ 46), 1),
         (Fin (3462142213541069 / 2 ^ 48), Fin (3187704111248179 / 2 ^ 46), 2)]) \<noteq> []
   \<and> \<not> le (getAverageTemperature (addReadings new_SensorHistoryService
        [(Fin (3462142213541069 / 2 ^ 48), Fin (3187704111248179 / 2 ^ 46), 0),
         (Fin (3462142213541069 / 2 ^ 48), Fin (3187704111248179 / 2 ^ 46), 1),
         (Fin (3462142213541069 / 2 ^ 48), Fin (3187704111248179 / 2 ^ 46), 2)]))
        (getMaxTemperature (addReadings new_SensorHistoryService
        [(Fin (3462142213541069 / 2 ^ 48), Fin (3187704111248179 / 2 ^ 46), 0),
         (Fin (3462142213541069 / 2 ^ 48), Fin (3187704111248179 / 2 ^ 46), 1),
         (Fin (3462142213541069 / 2 ^ 48), Fin (3187704111248179 / 2 ^ 46), 2)]))
   \<and> \<not> le (getMinHumidity (addReadings new_SensorHistoryService
        [(Fin (3462142213541069 / 2 ^ 48), Fin (3187704111248179 / 2 ^ 46), 0),
         (Fin (3462142213541069 / 2 ^ 48), Fin (3187704111248179 / 2 ^ 46), 1),
         (Fin (3462142213541069 / 2 ^ 48), Fin (3187704111248179 / 2 ^ 46), 2)]))
        (getAverageHumidity (addReadings new_SensorHistoryService
        [(Fin (3462142213541069 / 2 ^ 48), Fin (3187704111248179 / 2 ^ 46), 0),
         (Fin (3462142213541069 / 2 ^ 48), Fin (3187704111248179 / 2 ^ 46), 1),
         (Fin (3462142213541069 / 2 ^ 48), Fin (3187704111248179 / 2 ^ 46), 2)]))"
proof -
  let ?T = "Fin (3462142213541069 / 2 ^ 48)" and ?H = "Fin (3187704111248179 / 2 ^ 46)"
  let ?s = "addReadings new_SensorHistoryService [(?T, ?H, 0), (?T, ?H, 1), (?T, ?H, 2)]"
  have avgT: "getAverageTemperature ?s = Fin (6924284427082139 / 2 ^ 49)"
    by (simp only: getAverageTemperature_def held_three Let_def list.map list.size
          SensorReading.simps sum_12_3) (use avg_12_3 in \<open>simp add: numeral_3_eq_3\<close>)
  have maxT: "getMaxTemperature ?s = ?T"
    by (simp only: getMaxTemperature_def held_three) (simp add: Math_max_def lt_def)
  have avgH: "getAverageHumidity ?s = Fin (6375408222496357 / 2 ^ 47)"
    by (simp only: getAverageHumidity_def held_three Let_def list.map list.size
          SensorReading.simps sum_45_3) (use avg_45_3 in \<open>simp add: numeral_3_eq_3\<close>)
  have minH: "getMinHumidity ?s = ?H"
    by (simp only: getMinHumidity_def held_three) (simp add: Math_min_def lt_def)
  have "\<not> le (getAverageTemperature ?s) (getMaxTemperature ?s)"
    unfolding avgT maxT by simp
  moreover have "\<not> le (getMinHumidity ?s) (getAverageHumidity ?s)"
    unfolding avgH minH by simp
  moreover have "held ?s \<noteq> []"
    by (simp only: held_three) simp
  ultimately show ?thesis
    using rnd_12_3 rnd_45_3 by simp
qed

section \<open>The array handed out by getAllReadings\<close>



lemma subject_allocated_clearReadings:
  "readingsSubject (clearReadings s) < fresh (clearReadings s)"
  by (simp add: clearReadings_def)

lemma subject_allocated_mutate:
  "readingsSubject s < fresh s \<Longrightarrow> readingsSubject (mutate s a f) < fresh (mutate s a f)"
  by (simp add: mutate_def)







section \<open>IoTService\<close>

lemma statusSubject_updateStatus:
  "statusSubject (updateStatus s t h) =
     (if le (Fin 16) t \<and> le t (Fin 26) \<and> le (Fin 30) h \<and> le h (Fin 60) then optimal
      else if le (Fin 12) t \<and> le t (Fin 30) \<and> le (Fin 20) h \<and> le h (Fin 70) then warning
      else critical)"
  by (simp add: updateStatus_def ge_def Let_def)

lemma updateStatus_only_status:
  "updateStatus s t h = s\<lparr>statusSubject := statusSubject (updateStatus s t h)\<rparr>"
  by (simp add: updateStatus_def Let_def)

lemma rnd_26_01: "rnd (2601 / 100) = Fin (7321164144244163 / 2 ^ 48)"
  by (simp add: rnd_eval)

text \<open>
  C2. The status set by \<open>updateStatus\<close> is a function of temperature and humidity alone,
  defined for every pair of numbers: optimal when \<open>16 \<le> t \<le> 26\<close> and
  \<open>30 \<le> h \<le> 60\<close>, else warning when \<open>12 \<le> t \<le> 30\<close> and \<open>20 \<le> h \<le> 70\<close>, else
  critical, all bounds included; nothing but the status changes. The five sample
  readings, the last one the double that the literal 26.01 denotes.
\<close>

theorem updateStatus_classifies:
  "statusSubject (updateStatus s t h) =
     (if le (Fin 16) t \<and> le t (Fin 26) \<and> le (Fin 30) h \<and> le h (Fin 60) then optimal
      else if le (Fin 12) t \<and> le t (Fin 30) \<and> le (Fin 20) h \<and> le h (Fin 70) then warning
      else critical)
   \<and> statusSubject (updateStatus s (Fin x) (Fin y)) =
     (if 16 \<le> x \<and> x \<le> 26 \<and> 30 \<le> y \<and> y \<le> 60 then optimal
      else if 12 \<le> x \<and> x \<le> 30 \<and> 20 \<le> y \<and> y \<le> 70 then warning
      else critical)
   \<and> statusSubject (updateStatus s t h) = statusSubject (updateStatus s' t h)
   \<and> updateStatus s t h = s\<lparr>statusSubject := statusSubject (updateStatus s t h)\<rparr>
   \<and> statusSubject (updateStatus s (Fin 20) (Fin 45)) = optimal
   \<and> statusSubject (updateStatus s (Fin 29) (Fin 65)) = warning
   \<and> statusSubject (updateStatus s (Fin 5) (Fin 90)) = critical
   \<and> statusSubject (updateStatus s (Fin 26) (Fin 60)) = optimal
   \<and> statusSubject (updateStatus s (rnd (2601 / 100)) (Fin 60)) = warning"
proof -
  have "statusSubject (updateStatus s (rnd (2601 / 100)) (Fin 60)) = warning"
    unfolding rnd_26_01 by (simp add: statusSubject_updateStatus)
  moreover have "statusSubject (updateStatus s t h) = statusSubject (updateStatus s' t h)"
    by (simp only: statusSubject_updateStatus)
  ultimately show ?thesis
    using updateStatus_only_status [of s t h]
    by (simp add: statusSubject_updateStatus)
qed

text \<open>
  A temperature stored as an array is read through its string form: \<open>[25, 3]\<close> gives
  25, an array that starts with a hole gives NaN and so 0.
\<close>

lemma temperature_from_array:
  "temperatureSubject (sensorValue p now now' s
      (Some (JObj [(''temperature'', JArr [Some (JNum (Fin 25)), Some (JNum (Fin 3))])])))
     = Fin 25
   \<and> temperatureSubject (sensorValue p now now' s
      (Some (JObj [(''temperature'', JArr [None, Some (JNum (Fin 3))])])))
     = Fin 0"
  by (simp add: sensorValue_def get_def entries_def or_zero_def truthy_number_def
      updateStatus_def Let_def)

text \<open>
  C4. The error callback sets the loading flag to false and changes nothing else. After
  a snapshot has been taken in, an error therefore leaves temperature, humidity, status,
  last update, motion and history as that snapshot set them.
\<close>

theorem error_keeps_last_values:
  "sensorError s = s\<lparr>isLoadingSubject := False\<rparr>
   \<and> temperatureSubject (sensorError (sensorValue p now now' s (Some data)))
       = or_zero (parseFloat p (get data ''temperature''))
   \<and> humiditySubject (sensorError (sensorValue p now now' s (Some data)))
       = or_zero (parseFloat p (get data ''humidity''))
   \<and> statusSubject (sensorError (sensorValue p now now' s (Some data)))
       = statusSubject (sensorValue p now now' s (Some data))
   \<and> lastUpdatedSubject (sensorError (sensorValue p now now' s (Some data))) = now
   \<and> motionSubject (sensorError (sensorValue p now now' s (Some data))) = motionSubject s
   \<and> sensorHistory (sensorError (sensorValue p now now' s (Some data)))
       = sensorHistory (sensorValue p now now' s (Some data))
   \<and> isLoadingSubject (sensorError (sensorValue p now now' s (Some data))) = False
   \<and> getTemperature (sensorError (sensorValue p now now' s (Some data)))
       = getTemperature (sensorValue p now now' s (Some data))
   \<and> getHumidity (sensorError (sensorValue p now now' s (Some data)))
       = getHumidity (sensorValue p now now' s (Some data))
   \<and> getStatus (sensorError (sensorValue p now now' s (Some data)))
       = getStatus (sensorValue p now now' s (Some data))"
proof -
  let ?v = "sensorValue p now now' s (Some data)"
  have v: "?v = updateStatus
      (s\<lparr>temperatureSubject := or_zero (parseFloat p (get data ''temperature'')),
          humiditySubject := or_zero (parseFloat p (get data ''humidity'')),
          lastUpdatedSubject := now,
          isLoadingSubject := False,
          sensorHistory := addReading (sensorHistory s)
            (or_zero (parseFloat p (get data ''temperature'')))
            (or_zero (parseFloat p (get data ''humidity''))) now'\<rparr>)
      (or_zero (parseFloat p (get data ''temperature'')))
      (or_zero (parseFloat p (get data ''humidity'')))"
    by (simp add: sensorValue_def Let_def)
  have fields: "temperatureSubject ?v = or_zero (parseFloat p (get data ''temperature''))"
    "humiditySubject ?v = or_zero (parseFloat p (get data ''humidity''))"
    "lastUpdatedSubject ?v = now" "motionSubject ?v = motionSubject s"
    unfolding v by (subst updateStatus_only_status, simp)+
  show ?thesis
    using fields by (simp add: sensorError_def getTemperature_def getHumidity_def getStatus_def)
qed

text \<open>
  C10. A new service reports temperature 0, humidity 0, no motion, the status optimal
  and loading; a snapshot that does not exist changes nothing, on the sensor path and on
  the motion path, whatever the state.
\<close>

theorem defaults_before_first_snapshot:
  "getTemperature (new_IoTService t0) = Fin 0
   \<and> getHumidity (new_IoTService t0) = Fin 0
   \<and> getMotion (new_IoTService t0) = JBool False
   \<and> getStatus (new_IoTService t0) = optimal
   \<and> isLoadingSubject (new_IoTService t0) = True
   \<and> sensorValue p now now' s None = s
   \<and> motionValue s None = s"
  by (simp add: new_IoTService_def getTemperature_def getHumidity_def getMotion_def
      getStatus_def sensorValue_def motionValue_def)

section \<open>The theft alert\<close>

lemma timers_triggerTheftAlert:
  "timers (triggerTheftAlert d) = timers d @ [clock d + 8000]"
  by (simp add: triggerTheftAlert_def alert_next_def Let_def)

lemma emitted_triggerTheftAlert:
  "emitted (triggerTheftAlert d) = emitted d @ [(clock d, True)]"
  by (simp add: triggerTheftAlert_def alert_next_def Let_def)

lemma clock_triggerTheftAlert: "clock (triggerTheftAlert d) = clock d"
  by (simp add: triggerTheftAlert_def alert_next_def Let_def)

lemma intruderAlert_triggerTheftAlert: "intruderAlert (triggerTheftAlert d) = True"
  by (simp add: triggerTheftAlert_def alert_next_def Let_def)

lemma advance_nothing_due:
  "\<forall>x \<in> set (timers d). t < x \<Longrightarrow> advance d t = d\<lparr>clock := t\<rparr>"
proof -
  assume a: "\<forall>x \<in> set (timers d). t < x"
  then have "filter (\<lambda>x. x \<le> t) (timers d) = []"
    by (auto simp: filter_empty_conv)
  moreover from a have "filter (\<lambda>x. \<not> x \<le> t) (timers d) = timers d"
    by (auto simp: filter_id_conv)
  ultimately show ?thesis
    by (simp add: advance_def)
qed

lemma advance_first_of_two:
  "timers d = [a, b] \<Longrightarrow> a \<le> t \<Longrightarrow> t < b \<Longrightarrow>
   advance d t = (alert_next (d\<lparr>timers := [b], clock := a\<rparr>) False)\<lparr>clock := t\<rparr>"
  by (simp add: advance_def)

lemma advance_both_of_two:
  "timers d = [a, b] \<Longrightarrow> a \<le> b \<Longrightarrow> b \<le> t \<Longrightarrow>
   advance d t =
     (alert_next ((alert_next (d\<lparr>timers := [], clock := a\<rparr>) False)\<lparr>clock := b\<rparr>) False)
       \<lparr>clock := t\<rparr>"
  by (simp add: advance_def)

text \<open>
  C9, as the code has it. Every trigger sets the alert and schedules its own clearing
  8000 ms later; no pending clearing is ever cancelled. For two triggers at \<open>t1\<close> and
  \<open>t2\<close> less than 8000 ms apart, starting with nothing pending: both clearings are
  pending after the second trigger; the alert is cleared when the clock reaches
  \<open>t1 + 8000\<close>, which is less than 8000 ms after the second trigger; and by
  \<open>t2 + 8000\<close> the subject has been sent false twice, at \<open>t1 + 8000\<close> and at
  \<open>t2 + 8000\<close>.
\<close>

theorem every_trigger_clears_after_its_own_delay:
  assumes "timers d = []" and "clock d = t1" and "t1 < t2" and "t2 < t1 + 8000"
    and "t2 + 8000 \<le> t3"
  shows "motion_seen d (JBool True) = triggerTheftAlert d
    \<and> timers (triggerTheftAlert (advance (triggerTheftAlert d) t2)) = [t1 + 8000, t2 + 8000]
    \<and> intruderAlert (triggerTheftAlert (advance (triggerTheftAlert d) t2)) = True
    \<and> intruderAlert (advance (triggerTheftAlert (advance (triggerTheftAlert d) t2)) (t1 + 8000))
        = False
    \<and> emitted (advance (triggerTheftAlert (advance (triggerTheftAlert d) t2)) (t1 + 8000))
        = emitted d @ [(t1, True), (t2, True), (t1 + 8000, False)]
    \<and> emitted (advance (triggerTheftAlert (advance (triggerTheftAlert d) t2)) t3)
        = emitted d @ [(t1, True), (t2, True), (t1 + 8000, False), (t2 + 8000, False)]
    \<and> intruderAlert (advance (triggerTheftAlert (advance (triggerTheftAlert d) t2)) t3) = False
    \<and> timers (advance (triggerTheftAlert (advance (triggerTheftAlert d) t2)) t3) = []"
proof -
  let ?d1 = "triggerTheftAlert d"
  let ?d1' = "advance ?d1 t2"
  let ?d2 = "triggerTheftAlert ?d1'"
  have p1: "timers ?d1 = [t1 + 8000]"
    using assms(1,2) by (simp add: timers_triggerTheftAlert)
  have adv: "?d1' = ?d1\<lparr>clock := t2\<rparr>"
  proof (rule advance_nothing_due)
    show "\<forall>x \<in> set (timers ?d1). t2 < x"
      using assms(4) by (simp add: p1)
  qed
  have p2: "timers ?d2 = [t1 + 8000, t2 + 8000]"
    using assms(1,2) by (simp add: timers_triggerTheftAlert adv)
  have e2: "emitted ?d2 = emitted d @ [(t1, True), (t2, True)]"
    using assms(2) by (simp add: emitted_triggerTheftAlert adv)
  have first: "advance ?d2 (t1 + 8000)
      = (alert_next (?d2\<lparr>timers := [t2 + 8000], clock := t1 + 8000\<rparr>) False)
          \<lparr>clock := t1 + 8000\<rparr>"
    using p2 assms(3) by (intro advance_first_of_two) simp_all
  have both: "advance ?d2 t3
      = (alert_next ((alert_next (?d2\<lparr>timers := [], clock := t1 + 8000\<rparr>) False)
                        \<lparr>clock := t2 + 8000\<rparr>) False)\<lparr>clock := t3\<rparr>"
    using p2 assms(3,5) by (intro advance_both_of_two) simp_all
  have m: "motion_seen d (JBool True) = ?d1"
    by (simp add: motion_seen_def truthy_def)
  have "intruderAlert (advance ?d2 (t1 + 8000)) = False"
    and "emitted (advance ?d2 (t1 + 8000)) = emitted d @ [(t1, True), (t2, True), (t1 + 8000, False)]"
    and "emitted (advance ?d2 t3)
          = emitted d @ [(t1, True), (t2, True), (t1 + 8000, False), (t2 + 8000, False)]"
    and "intruderAlert (advance ?d2 t3) = False"
    and "timers (advance ?d2 t3) = []"
    unfolding first both by (simp_all add: alert_next_def e2)
  with m p2 show ?thesis
    by (simp add: intruderAlert_triggerTheftAlert)
qed

text \<open>The theorem for triggers at 0 ms and 5000 ms, observed until 13000 ms.\<close>

theorem every_trigger_clears_after_its_own_delay_witness:
  "timers (new_DashboardComponent 0) = []
   \<and> clock (new_DashboardComponent 0) = 0
   \<and> (0 :: int) < 5000 \<and> (5000 :: int) < 0 + 8000 \<and> (5000 :: int) + 8000 \<le> 13000
   \<and> timers (triggerTheftAlert (advance (triggerTheftAlert (new_DashboardComponent 0)) 5000))
       = [8000, 13000]
   \<and> emitted (advance (triggerTheftAlert (advance (triggerTheftAlert (new_DashboardComponent 0)) 5000)) 13000)
       = [(0, True), (5000, True), (8000, False), (13000, False)]"
proof -
  have d: "timers (new_DashboardComponent 0) = []" "clock (new_DashboardComponent 0) = 0"
    "emitted (new_DashboardComponent 0) = []"
    by (simp_all add: new_DashboardComponent_def)
  show ?thesis
    using every_trigger_clears_after_its_own_delay
      [of "new_DashboardComponent 0" 0 5000 13000] d
    by simp
qed

text \<open>
  Motion at 0 ms and again at 5000 ms. At 8000 ms, 3000 ms after the second trigger, the
  first timer clears the alert; by 13000 ms the subject has been sent false twice.
\<close>

theorem alert_cleared_early_counterexample:
  "intruderAlert
     (advance (motion_seen (advance (motion_seen (new_DashboardComponent 0) (JBool True)) 5000)
                 (JBool True)) 8000) = False
   \<and> emitted
     (advance (motion_seen (advance (motion_seen (new_DashboardComponent 0) (JBool True)) 5000)
                 (JBool True)) 13000)
     = [(0, True), (5000, True), (8000, False), (13000, False)]"
  by (simp add: motion_seen_def truthy_def triggerTheftAlert_def alert_next_def advance_def
      new_DashboardComponent_def Let_def)

section \<open>Array.prototype.sort\<close>

text \<open>
  Exactly one of \<open>a <\<^sub>C b\<close>, \<open>a =\<^sub>C b\<close> and \<open>a >\<^sub>C b\<close> holds, because \<open>SortCompare\<close>
  never returns NaN.
\<close>

lemma SortCompare_not_NaN: "SortCompare c a b \<noteq> NaN"
  by (simp add: SortCompare_def Let_def)

lemma sign_cases: "v \<noteq> NaN \<Longrightarrow> lt v (Fin 0) \<or> v = Fin 0 \<or> lt (Fin 0) v"
  by (cases v) (auto simp: lt_def)

lemma sign_exclusive: "\<not> (lt v (Fin 0) \<and> lt (Fin 0) v)"
  by (cases v) (auto simp: lt_def)

lemma C_cases: "lt_C c a b \<or> eq_C c a b \<or> gt_C c a b"
  unfolding lt_C_def eq_C_def gt_C_def by (rule sign_cases) (rule SortCompare_not_NaN)

lemma lt_C_not_eq_C: "lt_C c a b \<Longrightarrow> \<not> eq_C c a b"
  by (auto simp: lt_C_def eq_C_def lt_def)

lemma gt_C_not_eq_C: "gt_C c a b \<Longrightarrow> \<not> eq_C c a b"
  by (auto simp: gt_C_def eq_C_def lt_def)

lemma lt_C_not_gt_C: "lt_C c a b \<Longrightarrow> \<not> gt_C c a b"
  using sign_exclusive [of "SortCompare c a b"] by (simp add: lt_C_def gt_C_def)

text \<open>What a consistent comparator gives for elements of the array.\<close>

lemma consistent_refl: "consistent c xs \<Longrightarrow> a \<in> set xs \<Longrightarrow> eq_C c a a"
  unfolding consistent_def by blast

lemma consistent_sym: "consistent c xs \<Longrightarrow> a \<in> set xs \<Longrightarrow> b \<in> set xs \<Longrightarrow> eq_C c a b \<Longrightarrow> eq_C c b a"
  unfolding consistent_def by blast

lemma consistent_eq_trans:
  "consistent c xs \<Longrightarrow> a \<in> set xs \<Longrightarrow> b \<in> set xs \<Longrightarrow> d \<in> set xs \<Longrightarrow>
   eq_C c a b \<Longrightarrow> eq_C c b d \<Longrightarrow> eq_C c a d"
  unfolding consistent_def by blast

lemma consistent_lt_trans:
  "consistent c xs \<Longrightarrow> a \<in> set xs \<Longrightarrow> b \<in> set xs \<Longrightarrow> d \<in> set xs \<Longrightarrow>
   lt_C c a b \<Longrightarrow> lt_C c b d \<Longrightarrow> lt_C c a d"
  unfolding consistent_def by blast

lemma consistent_gt_trans:
  "consistent c xs \<Longrightarrow> a \<in> set xs \<Longrightarrow> b \<in> set xs \<Longrightarrow> d \<in> set xs \<Longrightarrow>
   gt_C c a b \<Longrightarrow> gt_C c b d \<Longrightarrow> gt_C c a d"
  unfolding consistent_def by blast

lemma consistent_subset: "consistent c xs \<Longrightarrow> set ys \<subseteq> set xs \<Longrightarrow> consistent c ys"
  unfolding consistent_def by blast

lemma lt_C_converse:
  assumes "consistent c xs" and "a \<in> set xs" and "b \<in> set xs" and "lt_C c a b"
  shows "gt_C c b a"
proof -
  have "\<not> lt_C c b a"
  proof
    assume "lt_C c b a"
    with assms have "lt_C c a a" by (metis consistent_lt_trans)
    moreover have "eq_C c a a" using assms by (metis consistent_refl)
    ultimately show False by (metis lt_C_not_eq_C)
  qed
  moreover have "\<not> eq_C c b a"
    using assms by (metis consistent_sym lt_C_not_eq_C)
  ultimately show ?thesis
    using C_cases [of c b a] by blast
qed

lemma gt_C_converse:
  assumes "consistent c xs" and "a \<in> set xs" and "b \<in> set xs" and "gt_C c a b"
  shows "lt_C c b a"
proof -
  have "\<not> gt_C c b a"
  proof
    assume "gt_C c b a"
    with assms have "gt_C c a a" by (metis consistent_gt_trans)
    moreover have "eq_C c a a" using assms by (metis consistent_refl)
    ultimately show False by (metis gt_C_not_eq_C)
  qed
  moreover have "\<not> eq_C c b a"
    using assms by (metis consistent_sym gt_C_not_eq_C)
  ultimately show ?thesis
    using C_cases [of c b a] by blast
qed

lemma lt_C_eq_C:
  assumes "consistent c xs" and "a \<in> set xs" and "b \<in> set xs" and "d \<in> set xs"
    and "lt_C c a b" and "eq_C c b d"
  shows "lt_C c a d"
proof -
  have "\<not> eq_C c a d"
  proof
    assume "eq_C c a d"
    moreover have "eq_C c d b" using assms by (metis consistent_sym)
    ultimately have "eq_C c a b" using assms by (metis consistent_eq_trans)
    with assms(5) show False by (metis lt_C_not_eq_C)
  qed
  moreover have "\<not> gt_C c a d"
  proof
    assume "gt_C c a d"
    then have "lt_C c d a" using assms by (metis gt_C_converse)
    then have "lt_C c d b" using assms by (metis consistent_lt_trans)
    then have "gt_C c b d" using assms by (metis lt_C_converse)
    with assms(6) show False by (metis gt_C_not_eq_C)
  qed
  ultimately show ?thesis
    using C_cases [of c a d] by blast
qed

text \<open>The insertion sort rearranges; with a consistent comparator it orders and is stable.\<close>

lemma mset_insert_by: "mset (insert_by c x ys) = add_mset x (mset ys)"
  by (induction ys) simp_all

lemma mset_insertion_sort: "mset (insertion_sort c xs) = mset xs"
  by (induction xs) (simp_all add: mset_insert_by)

lemma set_insert_by: "set (insert_by c x ys) = insert x (set ys)"
  using mset_insert_by [of c x ys] by (metis set_mset_mset set_mset_add_mset_insert)

lemma set_insertion_sort: "set (insertion_sort c xs) = set xs"
  using mset_insertion_sort [of c xs] by (metis set_mset_mset)

lemma insert_by_ordered:
  assumes "consistent c xs" and "x \<in> set xs" and "set ys \<subseteq> set xs"
    and "sorted_wrt (\<lambda>a b. \<not> lt_C c b a) ys"
  shows "sorted_wrt (\<lambda>a b. \<not> lt_C c b a) (insert_by c x ys)"
  using assms(3,4)
proof (induction ys)
  case Nil
  show ?case by simp
next
  case (Cons y ys)
  have y: "y \<in> set xs" and ys: "set ys \<subseteq> set xs"
    using Cons.prems(1) by simp_all
  have first: "\<forall>z \<in> set ys. \<not> lt_C c z y" and rest: "sorted_wrt (\<lambda>a b. \<not> lt_C c b a) ys"
    using Cons.prems(2) by simp_all
  show ?case
  proof (cases "gt_C c x y")
    case True
    have "\<not> lt_C c x y" using True by (metis lt_C_not_gt_C)
    then have "\<forall>z \<in> set (insert_by c x ys). \<not> lt_C c z y"
      using first by (simp add: set_insert_by)
    moreover have "sorted_wrt (\<lambda>a b. \<not> lt_C c b a) (insert_by c x ys)"
      using ys rest by (rule Cons.IH)
    ultimately show ?thesis using True by simp
  next
    case False
    have "\<not> lt_C c z x" if z: "z \<in> set (y # ys)" for z
    proof
      assume l: "lt_C c z x"
      have zs: "z \<in> set xs" using z Cons.prems(1) by blast
      have "lt_C c z y"
      proof -
        consider "lt_C c x y" | "eq_C c x y"
          using False C_cases [of c x y] by blast
        then show ?thesis
        proof cases
          case 1
          with l show ?thesis using assms(1,2) zs y by (metis consistent_lt_trans)
        next
          case 2
          with l show ?thesis using assms(1,2) zs y by (metis lt_C_eq_C)
        qed
      qed
      show False
      proof (cases "z = y")
        case True
        have "eq_C c y y" using assms(1) y by (rule consistent_refl)
        with \<open>lt_C c z y\<close> True show False by (metis lt_C_not_eq_C)
      next
        case False
        with z have "z \<in> set ys" by simp
        with first \<open>lt_C c z y\<close> show False by blast
      qed
    qed
    then show ?thesis
      using False Cons.prems(2) by simp
  qed
qed

lemma insertion_sort_ordered:
  "consistent c xs \<Longrightarrow> sorted_wrt (\<lambda>a b. \<not> lt_C c b a) (insertion_sort c xs)"
proof (induction xs)
  case Nil
  show ?case by simp
next
  case (Cons x xs)
  have "consistent c xs"
    using Cons.prems by (rule consistent_subset) auto
  then have "sorted_wrt (\<lambda>a b. \<not> lt_C c b a) (insertion_sort c xs)"
    by (rule Cons.IH)
  moreover have "set (insertion_sort c xs) \<subseteq> set (x # xs)"
    by (auto simp: set_insertion_sort)
  ultimately have "sorted_wrt (\<lambda>a b. \<not> lt_C c b a) (insert_by c x (insertion_sort c xs))"
    using Cons.prems by (intro insert_by_ordered [of c "x # xs"]) simp_all
  then show ?case by simp
qed

lemma insert_by_stable:
  assumes "consistent c xs" and "x \<in> set xs" and "a \<in> set xs" and "set ys \<subseteq> set xs"
  shows "filter (eq_C c a) (insert_by c x ys) = filter (eq_C c a) (x # ys)"
  using assms(4)
proof (induction ys)
  case Nil
  show ?case by simp
next
  case (Cons y ys)
  have y: "y \<in> set xs" and ys: "set ys \<subseteq> set xs"
    using Cons.prems by simp_all
  show ?case
  proof (cases "gt_C c x y")
    case True
    have "\<not> (eq_C c a x \<and> eq_C c a y)"
    proof
      assume e: "eq_C c a x \<and> eq_C c a y"
      then have "eq_C c x a" using assms(1-3) by (metis consistent_sym)
      with e have "eq_C c x y" using assms(1-3) y by (metis consistent_eq_trans)
      with True show False by (metis gt_C_not_eq_C)
    qed
    then show ?thesis
      using True Cons.IH [OF ys] by auto
  next
    case False
    then show ?thesis by simp
  qed
qed

lemma insertion_sort_stable_within:
  assumes "consistent c zs" and "a \<in> set zs"
  shows "set xs \<subseteq> set zs \<Longrightarrow>
         filter (eq_C c a) (insertion_sort c xs) = filter (eq_C c a) xs"
proof (induction xs)
  case Nil
  show ?case by simp
next
  case (Cons x xs)
  have x: "x \<in> set zs" and xs: "set xs \<subseteq> set zs"
    using Cons.prems by simp_all
  have "set (insertion_sort c xs) \<subseteq> set zs"
    using xs by (simp add: set_insertion_sort)
  then have "filter (eq_C c a) (insert_by c x (insertion_sort c xs))
          = filter (eq_C c a) (x # insertion_sort c xs)"
    by (rule insert_by_stable [OF assms(1) x assms(2)])
  then show ?case
    using Cons.IH [OF xs] by simp
qed

text \<open>Every call of \<open>sort\<close> has a result.\<close>

lemma Array_sort_insertion_sort: "Array_sort c xs (insertion_sort c xs)"
  unfolding Array_sort_def
proof (intro conjI impI ballI)
  show "mset (insertion_sort c xs) = mset xs"
    by (rule mset_insertion_sort)
next
  assume "consistent c xs"
  then show "sorted_wrt (\<lambda>a b. \<not> lt_C c b a) (insertion_sort c xs)"
    by (rule insertion_sort_ordered)
next
  fix a
  assume "consistent c xs" and "a \<in> set xs"
  then show "filter (eq_C c a) (insertion_sort c xs) = filter (eq_C c a) xs"
    by (rule insertion_sort_stable_within) simp
qed

lemma Array_sort_total: "\<exists>ys. Array_sort c xs ys"
  using Array_sort_insertion_sort by blast

text \<open>
  \<open>sort\<close> rearranges, so an array of one element stays as it is. When every two
  elements compare equal, which is the case when every result of the comparator is NaN,
  the array stays as it is.
\<close>

lemma Array_sort_mset: "Array_sort c xs ys \<Longrightarrow> mset ys = mset xs"
  by (simp add: Array_sort_def)

lemma Array_sort_set: "Array_sort c xs ys \<Longrightarrow> set ys = set xs"
  by (metis Array_sort_mset set_mset_mset)

lemma Array_sort_empty: "Array_sort c [] ys = (ys = [])"
  by (auto simp: Array_sort_def consistent_def)

lemma Array_sort_single: "Array_sort c [x] ys = (ys = [x])"
proof
  assume "Array_sort c [x] ys"
  then have "mset ys = {#x#}" by (simp add: Array_sort_def)
  then show "ys = [x]" by (metis mset_single_iff_right)
next
  assume "ys = [x]"
  then show "Array_sort c [x] ys" by (simp add: Array_sort_def)
qed

lemma all_equal_consistent:
  assumes "\<forall>x \<in> set xs. \<forall>y \<in> set xs. eq_C c x y"
  shows "consistent c xs"
  unfolding consistent_def
proof (intro ballI conjI impI)
  fix a b d
  assume a: "a \<in> set xs" and b: "b \<in> set xs" and d: "d \<in> set xs"
  have ab: "eq_C c a b"
    using assms a b by simp
  show "eq_C c a a" "eq_C c b a" "eq_C c a d"
    using assms a b d by simp_all
  show "lt_C c a d" if "lt_C c a b \<and> lt_C c b d"
    using that ab lt_C_not_eq_C [of c a b] by simp
  show "gt_C c a d" if "gt_C c a b \<and> gt_C c b d"
    using that ab gt_C_not_eq_C [of c a b] by simp
qed

lemma sorted_wrt_all: "\<forall>x \<in> set xs. \<forall>y \<in> set xs. P x y \<Longrightarrow> sorted_wrt P xs"
  by (induction xs) simp_all

lemma Array_sort_all_equal:
  assumes "\<forall>x \<in> set xs. \<forall>y \<in> set xs. eq_C c x y"
  shows "Array_sort c xs ys = (ys = xs)"
proof
  assume s: "Array_sort c xs ys"
  have c: "consistent c xs" using assms by (rule all_equal_consistent)
  show "ys = xs"
  proof (cases xs)
    case Nil
    with s show ?thesis by (simp add: Array_sort_empty)
  next
    case (Cons a as)
    then have a: "a \<in> set xs" by simp
    have "filter (eq_C c a) ys = filter (eq_C c a) xs"
      using s c a by (simp add: Array_sort_def)
    moreover have "\<forall>y \<in> set ys. eq_C c a y"
      using assms a Array_sort_set [OF s] by simp
    moreover have "\<forall>y \<in> set xs. eq_C c a y"
      using assms a by simp
    ultimately show ?thesis by simp
  qed
next
  assume "ys = xs"
  moreover have "\<forall>x \<in> set xs. \<forall>y \<in> set xs. \<not> lt_C c y x"
    using assms lt_C_not_eq_C [of c] by blast
  then have "sorted_wrt (\<lambda>a b. \<not> lt_C c b a) xs"
    by (rule sorted_wrt_all)
  ultimately show "Array_sort c xs ys"
    by (simp add: Array_sort_def)
qed

lemma NaN_eq_C: "c x y = NaN \<Longrightarrow> eq_C c x y"
  by (simp add: eq_C_def SortCompare_def)

section \<open>The snapshot listener of the warehouse\<close>

text \<open>What the three loops push, before the arrays are sorted.\<close>

lemma foldl_push_transaction:
  "foldl (push_transaction history) acc keys =
     acc @ map (\<lambda>key. \<lparr>date = key,
                        amount = or_default (member (get history key) ''amount'') (JNum (Fin 0)),
                        ton_sau = or_default (member (get history key) ''ton_sau'') (JNum (Fin 0)),
                        type = or_default (member (get history key) ''type'') (JStr ''NHAP'')\<rparr>)
             (filter (\<lambda>key. key \<noteq> ''alarm'' \<and> key \<noteq> ''door''
                              \<and> member (get history key) ''amount'' \<noteq> None) keys)"
  by (induction keys arbitrary: acc) (simp_all add: push_transaction_def Let_def)

lemma foldl_push_alarm:
  "foldl (push_alarm alarms) acc keys =
     acc @ map (\<lambda>k. \<lparr>alarm_timestamp = k,
                      alarm_event = or_default (member (get alarms k) ''event'') (JStr ''ALARM'')\<rparr>)
             keys"
  by (induction keys arbitrary: acc) (simp_all add: push_alarm_def Let_def)

lemma foldl_push_door:
  "foldl (push_door doors) acc keys =
     acc @ map (\<lambda>k. \<lparr>door_timestamp = k,
                      door_event = or_default (member (get doors k) ''event'') (JStr ''OPEN'')\<rparr>)
             keys"
  by (induction keys arbitrary: acc) (simp_all add: push_door_def Let_def)

lemma or_default_absent: "or_default None d = d"
  by (simp add: or_default_def truthy_def)

lemma dates_pushed:
  "map date (foldl (push_transaction history) [] keys)
     = filter (\<lambda>key. key \<noteq> ''alarm'' \<and> key \<noteq> ''door''
                      \<and> member (get history key) ''amount'' \<noteq> None) keys"
  by (simp add: foldl_push_transaction o_def)

lemma alarm_timestamps_pushed: "map alarm_timestamp (foldl (push_alarm alarms) [] keys) = keys"
  by (simp add: foldl_push_alarm o_def)

lemma door_timestamps_pushed: "map door_timestamp (foldl (push_door doors) [] keys) = keys"
  by (simp add: foldl_push_door o_def)

lemma transaction_pushed:
  assumes "t \<in> set (foldl (push_transaction history) [] keys)"
  shows "date t \<noteq> ''alarm'' \<and> date t \<noteq> ''door''
    \<and> member (get history (date t)) ''amount'' \<noteq> None
    \<and> amount t = or_default (member (get history (date t)) ''amount'') (JNum (Fin 0))
    \<and> ton_sau t = or_default (member (get history (date t)) ''ton_sau'') (JNum (Fin 0))
    \<and> type t = or_default (member (get history (date t)) ''type'') (JStr ''NHAP'')"
  using assms by (auto simp: foldl_push_transaction)

lemma alarm_pushed:
  assumes "e \<in> set (foldl (push_alarm alarms) [] keys)"
  shows "alarm_event e = or_default (member (get alarms (alarm_timestamp e)) ''event'') (JStr ''ALARM'')"
  using assms by (auto simp: foldl_push_alarm)

lemma door_pushed:
  assumes "e \<in> set (foldl (push_door doors) [] keys)"
  shows "door_event e = or_default (member (get doors (door_timestamp e)) ''event'') (JStr ''OPEN'')"
  using assms by (auto simp: foldl_push_door)

text \<open>
  A run of the listener on a snapshot with a history: the three subjects are sent the
  sorted arrays (the alarm and the door subject only when the history has such an entry),
  the inventory subject the quantity, and the loading subject \<open>false\<close>.
\<close>

lemma truthy_Some: "truthy v \<Longrightarrow> \<exists>w. v = Some w"
  by (cases v) (simp_all add: truthy_def)

lemma alarmHistory_iff:
  "alarmHistory getTime history s s1 =
     (\<exists>a. (if truthy (get history ''alarm'')
            then Array_sort (alarm_compare getTime)
                   (foldl (push_alarm (the (get history ''alarm''))) []
                      (Object_keys (the (get history ''alarm'')))) a
            else a = alarmHistorySubject s)
          \<and> s1 = s\<lparr>alarmHistorySubject := a\<rparr>)"
proof
  assume "alarmHistory getTime history s s1"
  then show "\<exists>a. (if truthy (get history ''alarm'')
            then Array_sort (alarm_compare getTime)
                   (foldl (push_alarm (the (get history ''alarm''))) []
                      (Object_keys (the (get history ''alarm'')))) a
            else a = alarmHistorySubject s)
          \<and> s1 = s\<lparr>alarmHistorySubject := a\<rparr>"
  proof cases
    case no_alarm
    then show ?thesis by simp
  next
    case (alarm alarms alarmEvents)
    then show ?thesis by auto
  qed
next
  assume "\<exists>a. (if truthy (get history ''alarm'')
            then Array_sort (alarm_compare getTime)
                   (foldl (push_alarm (the (get history ''alarm''))) []
                      (Object_keys (the (get history ''alarm'')))) a
            else a = alarmHistorySubject s)
          \<and> s1 = s\<lparr>alarmHistorySubject := a\<rparr>"
  then obtain a where a: "if truthy (get history ''alarm'')
            then Array_sort (alarm_compare getTime)
                   (foldl (push_alarm (the (get history ''alarm''))) []
                      (Object_keys (the (get history ''alarm'')))) a
            else a = alarmHistorySubject s"
    and s1: "s1 = s\<lparr>alarmHistorySubject := a\<rparr>"
    by blast
  show "alarmHistory getTime history s s1"
  proof (cases "truthy (get history ''alarm'')")
    case True
    then obtain alarms where g: "get history ''alarm'' = Some alarms"
      using truthy_Some by blast
    have "Array_sort (alarm_compare getTime)
            (foldl (push_alarm alarms) [] (Object_keys alarms)) a"
      using a True g by simp
    with g True show ?thesis
      unfolding s1 by (intro alarmHistory.alarm) simp_all
  next
    case False
    with a have "s1 = s" by (simp add: s1)
    with False show ?thesis
      by (simp add: alarmHistory.no_alarm)
  qed
qed

lemma doorHistory_iff:
  "doorHistory getTime history s s1 =
     (\<exists>d. (if truthy (get history ''door'')
            then Array_sort (door_compare getTime)
                   (foldl (push_door (the (get history ''door''))) []
                      (Object_keys (the (get history ''door'')))) d
            else d = doorHistorySubject s)
          \<and> s1 = s\<lparr>doorHistorySubject := d\<rparr>)"
proof
  assume "doorHistory getTime history s s1"
  then show "\<exists>d. (if truthy (get history ''door'')
            then Array_sort (door_compare getTime)
                   (foldl (push_door (the (get history ''door''))) []
                      (Object_keys (the (get history ''door'')))) d
            else d = doorHistorySubject s)
          \<and> s1 = s\<lparr>doorHistorySubject := d\<rparr>"
  proof cases
    case no_door
    then show ?thesis by simp
  next
    case (door doors doorEvents)
    then show ?thesis by auto
  qed
next
  assume "\<exists>d. (if truthy (get history ''door'')
            then Array_sort (door_compare getTime)
                   (foldl (push_door (the (get history ''door''))) []
                      (Object_keys (the (get history ''door'')))) d
            else d = doorHistorySubject s)
          \<and> s1 = s\<lparr>doorHistorySubject := d\<rparr>"
  then obtain d where d: "if truthy (get history ''door'')
            then Array_sort (door_compare getTime)
                   (foldl (push_door (the (get history ''door''))) []
                      (Object_keys (the (get history ''door'')))) d
            else d = doorHistorySubject s"
    and s1: "s1 = s\<lparr>doorHistorySubject := d\<rparr>"
    by blast
  show "doorHistory getTime history s s1"
  proof (cases "truthy (get history ''door'')")
    case True
    then obtain doors where g: "get history ''door'' = Some doors"
      using truthy_Some by blast
    have "Array_sort (door_compare getTime)
            (foldl (push_door doors) [] (Object_keys doors)) d"
      using d True g by simp
    with g True show ?thesis
      unfolding s1 by (intro doorHistory.door) simp_all
  next
    case False
    with d have "s1 = s" by (simp add: s1)
    with False show ?thesis
      by (simp add: doorHistory.no_door)
  qed
qed

lemma processHistory_iff:
  "processHistory getTime s history s' =
     (\<exists>a d t.
        (if truthy (get history ''alarm'')
         then Array_sort (alarm_compare getTime)
                (foldl (push_alarm (the (get history ''alarm''))) []
                   (Object_keys (the (get history ''alarm'')))) a
         else a = alarmHistorySubject s)
      \<and> (if truthy (get history ''door'')
         then Array_sort (door_compare getTime)
                (foldl (push_door (the (get history ''door''))) []
                   (Object_keys (the (get history ''door'')))) d
         else d = doorHistorySubject s)
      \<and> Array_sort (date_compare getTime)
          (foldl (push_transaction history) [] (Object_keys history)) t
      \<and> s' = s\<lparr>alarmHistorySubject := a, doorHistorySubject := d, historySubject := t\<rparr>)"
  (is "_ = (\<exists>a d t. ?A a \<and> ?D d \<and> ?T t \<and> s' = ?out a d t)")
proof
  assume "processHistory getTime s history s'"
  then obtain s1 s2 t where 1: "alarmHistory getTime history s s1"
    and 2: "doorHistory getTime history s1 s2" and t: "?T t"
    and s': "s' = s2\<lparr>historySubject := t\<rparr>"
    by cases
  from 1 obtain a where a: "?A a" and s1: "s1 = s\<lparr>alarmHistorySubject := a\<rparr>"
    unfolding alarmHistory_iff by blast
  from 2 obtain d where d: "if truthy (get history ''door'')
            then Array_sort (door_compare getTime)
                   (foldl (push_door (the (get history ''door''))) []
                      (Object_keys (the (get history ''door'')))) d
            else d = doorHistorySubject s1"
    and s2: "s2 = s1\<lparr>doorHistorySubject := d\<rparr>"
    unfolding doorHistory_iff by blast
  have "?D d" using d by (simp add: s1)
  moreover have "s' = ?out a d t" by (simp add: s' s2 s1)
  ultimately show "\<exists>a d t. ?A a \<and> ?D d \<and> ?T t \<and> s' = ?out a d t"
    using a t by blast
next
  assume "\<exists>a d t. ?A a \<and> ?D d \<and> ?T t \<and> s' = ?out a d t"
  then obtain a d t where a: "?A a" and d: "?D d" and t: "?T t" and s': "s' = ?out a d t"
    by blast
  have 1: "alarmHistory getTime history s (s\<lparr>alarmHistorySubject := a\<rparr>)"
    unfolding alarmHistory_iff using a by blast
  have "if truthy (get history ''door'')
            then Array_sort (door_compare getTime)
                   (foldl (push_door (the (get history ''door''))) []
                      (Object_keys (the (get history ''door'')))) d
            else d = doorHistorySubject (s\<lparr>alarmHistorySubject := a\<rparr>)"
    using d by simp
  then have 2: "doorHistory getTime history (s\<lparr>alarmHistorySubject := a\<rparr>)
      (s\<lparr>alarmHistorySubject := a\<rparr>\<lparr>doorHistorySubject := d\<rparr>)"
    unfolding doorHistory_iff by blast
  have "processHistory getTime s history
      (s\<lparr>alarmHistorySubject := a\<rparr>\<lparr>doorHistorySubject := d\<rparr>\<lparr>historySubject := t\<rparr>)"
    using 1 2 t by (rule processHistory.intros)
  then show "processHistory getTime s history s'"
    by (simp add: s')
qed

lemma warehouseValue_iff:
  assumes "get data ''history'' = Some history" and "truthy (Some history)"
  shows "warehouseValue getTime s (Some data) s' =
     (\<exists>a d t.
        (if truthy (get history ''alarm'')
         then Array_sort (alarm_compare getTime)
                (foldl (push_alarm (the (get history ''alarm''))) []
                   (Object_keys (the (get history ''alarm'')))) a
         else a = alarmHistorySubject s)
      \<and> (if truthy (get history ''door'')
         then Array_sort (door_compare getTime)
                (foldl (push_door (the (get history ''door''))) []
                   (Object_keys (the (get history ''door'')))) d
         else d = doorHistorySubject s)
      \<and> Array_sort (date_compare getTime)
          (foldl (push_transaction history) [] (Object_keys history)) t
      \<and> s' = s\<lparr>currentInventorySubject := or_default (get data ''quantity'') (JNum (Fin 0)),
                alarmHistorySubject := a, doorHistorySubject := d, historySubject := t,
                warehouseLoadingSubject := False\<rparr>)"
  (is "_ = (\<exists>a d t. ?A a \<and> ?D d \<and> ?T t \<and> s' = ?out a d t)")
proof
  let ?s0 = "s\<lparr>currentInventorySubject := or_default (get data ''quantity'') (JNum (Fin 0))\<rparr>"
  assume "warehouseValue getTime s (Some data) s'"
  then obtain s2 where p: "processHistory getTime ?s0 history s2"
    and s': "s' = s2\<lparr>warehouseLoadingSubject := False\<rparr>"
    using assms by cases auto
  from p obtain a d t where a: "if truthy (get history ''alarm'')
         then Array_sort (alarm_compare getTime)
                (foldl (push_alarm (the (get history ''alarm''))) []
                   (Object_keys (the (get history ''alarm'')))) a
         else a = alarmHistorySubject ?s0"
    and d: "if truthy (get history ''door'')
         then Array_sort (door_compare getTime)
                (foldl (push_door (the (get history ''door''))) []
                   (Object_keys (the (get history ''door'')))) d
         else d = doorHistorySubject ?s0"
    and t: "?T t"
    and s2: "s2 = ?s0\<lparr>alarmHistorySubject := a, doorHistorySubject := d, historySubject := t\<rparr>"
    unfolding processHistory_iff by blast
  have "?A a" using a by simp
  moreover have "?D d" using d by simp
  moreover have "s' = ?out a d t" by (simp add: s' s2)
  ultimately show "\<exists>a d t. ?A a \<and> ?D d \<and> ?T t \<and> s' = ?out a d t"
    using t by blast
next
  let ?s0 = "s\<lparr>currentInventorySubject := or_default (get data ''quantity'') (JNum (Fin 0))\<rparr>"
  assume "\<exists>a d t. ?A a \<and> ?D d \<and> ?T t \<and> s' = ?out a d t"
  then obtain a d t where a: "?A a" and d: "?D d" and t: "?T t" and s': "s' = ?out a d t"
    by blast
  have a0: "if truthy (get history ''alarm'')
         then Array_sort (alarm_compare getTime)
                (foldl (push_alarm (the (get history ''alarm''))) []
                   (Object_keys (the (get history ''alarm'')))) a
         else a = alarmHistorySubject ?s0"
    using a by simp
  have d0: "if truthy (get history ''door'')
         then Array_sort (door_compare getTime)
                (foldl (push_door (the (get history ''door''))) []
                   (Object_keys (the (get history ''door'')))) d
         else d = doorHistorySubject ?s0"
    using d by simp
  have "processHistory getTime ?s0 history
      (?s0\<lparr>alarmHistorySubject := a, doorHistorySubject := d, historySubject := t\<rparr>)"
    unfolding processHistory_iff using a0 d0 t by blast
  with assms have "warehouseValue getTime s (Some data)
      (?s0\<lparr>alarmHistorySubject := a, doorHistorySubject := d, historySubject := t\<rparr>
          \<lparr>warehouseLoadingSubject := False\<rparr>)"
    by (rule warehouseValue.history)
  then show "warehouseValue getTime s (Some data) s'"
    by (simp add: s')
qed

lemma warehouseValue_total: "\<exists>s'. warehouseValue getTime s snapshot s'"
proof (cases snapshot)
  case None
  then show ?thesis using warehouseValue.not_exists by blast
next
  case (Some data)
  show ?thesis
  proof (cases "truthy (get data ''history'')")
    case False
    then show ?thesis unfolding Some using warehouseValue.no_history by blast
  next
    case True
    then obtain history where h: "get data ''history'' = Some history"
      using truthy_Some by blast
    obtain t where t: "Array_sort (date_compare getTime)
          (foldl (push_transaction history) [] (Object_keys history)) t"
      using Array_sort_total by blast
    obtain a where a: "if truthy (get history ''alarm'')
         then Array_sort (alarm_compare getTime)
                (foldl (push_alarm (the (get history ''alarm''))) []
                   (Object_keys (the (get history ''alarm'')))) a
         else a = alarmHistorySubject s"
      using Array_sort_total by (cases "truthy (get history ''alarm'')") auto
    obtain d where d: "if truthy (get history ''door'')
         then Array_sort (door_compare getTime)
                (foldl (push_door (the (get history ''door''))) []
                   (Object_keys (the (get history ''door'')))) d
         else d = doorHistorySubject s"
      using Array_sort_total by (cases "truthy (get history ''door'')") auto
    have th: "truthy (Some history)"
      using True h by simp
    have "warehouseValue getTime s (Some data)
            (s\<lparr>currentInventorySubject := or_default (get data ''quantity'') (JNum (Fin 0)),
                alarmHistorySubject := a, doorHistorySubject := d, historySubject := t,
                warehouseLoadingSubject := False\<rparr>)"
      unfolding warehouseValue_iff [OF h th] using a d t by blast
    then show ?thesis unfolding Some by blast
  qed
qed

section \<open>Reconciling a history\<close>

lemma published_sorted:
  assumes "warehouseValue getTime s (Some data) s'"
    and "get data ''history'' = Some history" and "truthy (Some history)"
  shows "Array_sort (date_compare getTime)
           (foldl (push_transaction history) [] (Object_keys history)) (historySubject s')"
    and "get history ''alarm'' = Some alarms \<Longrightarrow> truthy (Some alarms) \<Longrightarrow>
         Array_sort (alarm_compare getTime)
           (foldl (push_alarm alarms) [] (Object_keys alarms)) (alarmHistorySubject s')"
    and "\<not> truthy (get history ''alarm'') \<Longrightarrow> alarmHistorySubject s' = alarmHistorySubject s"
    and "get history ''door'' = Some doors \<Longrightarrow> truthy (Some doors) \<Longrightarrow>
         Array_sort (door_compare getTime)
           (foldl (push_door doors) [] (Object_keys doors)) (doorHistorySubject s')"
    and "\<not> truthy (get history ''door'') \<Longrightarrow> doorHistorySubject s' = doorHistorySubject s"
    and "currentInventorySubject s' = or_default (get data ''quantity'') (JNum (Fin 0))"
    and "warehouseLoadingSubject s' = False"
proof -
  obtain a d t where a: "if truthy (get history ''alarm'')
         then Array_sort (alarm_compare getTime)
                (foldl (push_alarm (the (get history ''alarm''))) []
                   (Object_keys (the (get history ''alarm'')))) a
         else a = alarmHistorySubject s"
    and d: "if truthy (get history ''door'')
         then Array_sort (door_compare getTime)
                (foldl (push_door (the (get history ''door''))) []
                   (Object_keys (the (get history ''door'')))) d
         else d = doorHistorySubject s"
    and t: "Array_sort (date_compare getTime)
          (foldl (push_transaction history) [] (Object_keys history)) t"
    and s': "s' = s\<lparr>currentInventorySubject := or_default (get data ''quantity'') (JNum (Fin 0)),
                alarmHistorySubject := a, doorHistorySubject := d, historySubject := t,
                warehouseLoadingSubject := False\<rparr>"
    using assms(1) unfolding warehouseValue_iff [OF assms(2,3)] by blast
  show "Array_sort (date_compare getTime)
           (foldl (push_transaction history) [] (Object_keys history)) (historySubject s')"
    using t by (simp add: s')
  show "Array_sort (alarm_compare getTime)
           (foldl (push_alarm alarms) [] (Object_keys alarms)) (alarmHistorySubject s')"
    if "get history ''alarm'' = Some alarms" and "truthy (Some alarms)"
    using a that by (simp add: s')
  show "alarmHistorySubject s' = alarmHistorySubject s" if "\<not> truthy (get history ''alarm'')"
    using a that by (simp add: s')
  show "Array_sort (door_compare getTime)
           (foldl (push_door doors) [] (Object_keys doors)) (doorHistorySubject s')"
    if "get history ''door'' = Some doors" and "truthy (Some doors)"
    using d that by (simp add: s')
  show "doorHistorySubject s' = doorHistorySubject s" if "\<not> truthy (get history ''door'')"
    using d that by (simp add: s')
  show "currentInventorySubject s' = or_default (get data ''quantity'') (JNum (Fin 0))"
    and "warehouseLoadingSubject s' = False"
    by (simp_all add: s')
qed

lemma sample_alarms:
  "foldl (push_alarm (JObj [(''2026-01-05_16-37-41'', JObj [(''event'', JStr ''ALARM'')])])) []
     (Object_keys (JObj [(''2026-01-05_16-37-41'', JObj [(''event'', JStr ''ALARM'')])]))
     = [\<lparr>alarm_timestamp = ''2026-01-05_16-37-41'', alarm_event = JStr ''ALARM''\<rparr>]"
  by (simp add: Object_keys_def entries_def push_alarm_def get_def
      member_def or_default_def truthy_def Let_def)

lemma sample_doors:
  "foldl (push_door (JObj [(''2026-01-05_16-30-00'', JObj [(''event'', JStr ''OPEN'')])])) []
     (Object_keys (JObj [(''2026-01-05_16-30-00'', JObj [(''event'', JStr ''OPEN'')])]))
     = [\<lparr>door_timestamp = ''2026-01-05_16-30-00'', door_event = JStr ''OPEN''\<rparr>]"
  by (simp add: Object_keys_def entries_def push_door_def get_def
      member_def or_default_def truthy_def Let_def)

lemma sample_transactions:
  "foldl (push_transaction sample_history) [] (Object_keys sample_history)
     = [\<lparr>date = ''2025-12-20_20-11-20'', amount = JNum (Fin 50), ton_sau = JNum (Fin 150),
         type = JStr ''NHAP''\<rparr>]"
  by (simp add: sample_history_def Object_keys_def entries_def
      push_transaction_def get_def member_def or_default_def truthy_def truthy_number_def Let_def)

lemma sample_published:
  assumes "get data ''history'' = Some sample_history"
  shows "warehouseValue getTime s (Some data) s' =
     (s' = s\<lparr>currentInventorySubject := or_default (get data ''quantity'') (JNum (Fin 0)),
             alarmHistorySubject :=
               [\<lparr>alarm_timestamp = ''2026-01-05_16-37-41'', alarm_event = JStr ''ALARM''\<rparr>],
             doorHistorySubject :=
               [\<lparr>door_timestamp = ''2026-01-05_16-30-00'', door_event = JStr ''OPEN''\<rparr>],
             historySubject :=
               [\<lparr>date = ''2025-12-20_20-11-20'', amount = JNum (Fin 50),
                 ton_sau = JNum (Fin 150), type = JStr ''NHAP''\<rparr>],
             warehouseLoadingSubject := False\<rparr>)"
proof -
  have th: "truthy (Some sample_history)"
    by (simp add: sample_history_def truthy_def)
  have a: "get sample_history ''alarm''
             = Some (JObj [(''2026-01-05_16-37-41'', JObj [(''event'', JStr ''ALARM'')])])"
    and d: "get sample_history ''door''
             = Some (JObj [(''2026-01-05_16-30-00'', JObj [(''event'', JStr ''OPEN'')])])"
    by (simp_all add: sample_history_def get_def entries_def)
  show ?thesis
    unfolding warehouseValue_iff [OF assms th]
    by (simp add: a d truthy_def sample_alarms sample_doors sample_transactions
        Array_sort_single)
qed

text \<open>
  C6. For every snapshot whose history is the example history (one alarm entry, one door
  entry, one top-level record with an amount) the listener publishes one alarm event, one
  door event and one transaction, each in its own subject, and nothing else is a possible
  outcome. For every snapshot with a history and every outcome of the listener: the
  transactions published are, one for one, the top-level keys other than \<open>alarm\<close> and
  \<open>door\<close> whose record has a defined amount, so the reserved keys are never
  transactions and a record without an amount is skipped; the alarm events published are,
  one for one, the keys of the alarm object, and the door events those of the door
  object; an entry without an event is labelled \<open>ALARM\<close>, respectively \<open>OPEN\<close>;
  without an alarm or a door object the subject keeps its value. The listener has an
  outcome on every snapshot.
\<close>

theorem history_is_partitioned:
  "(get data ''history'' = Some sample_history \<longrightarrow>
      warehouseValue getTime s (Some data) s' =
        (s' = s\<lparr>currentInventorySubject := or_default (get data ''quantity'') (JNum (Fin 0)),
                alarmHistorySubject :=
                  [\<lparr>alarm_timestamp = ''2026-01-05_16-37-41'', alarm_event = JStr ''ALARM''\<rparr>],
                doorHistorySubject :=
                  [\<lparr>door_timestamp = ''2026-01-05_16-30-00'', door_event = JStr ''OPEN''\<rparr>],
                historySubject :=
                  [\<lparr>date = ''2025-12-20_20-11-20'', amount = JNum (Fin 50),
                    ton_sau = JNum (Fin 150), type = JStr ''NHAP''\<rparr>],
                warehouseLoadingSubject := False\<rparr>))
   \<and> (warehouseValue getTime s (Some data) s' \<and> get data ''history'' = Some history
        \<and> truthy (Some history) \<longrightarrow>
        mset (map date (historySubject s')) =
          mset (filter (\<lambda>key. key \<noteq> ''alarm'' \<and> key \<noteq> ''door''
                               \<and> member (get history key) ''amount'' \<noteq> None)
                  (Object_keys history))
        \<and> (\<forall>t \<in> set (historySubject s').
              date t \<noteq> ''alarm'' \<and> date t \<noteq> ''door''
              \<and> member (get history (date t)) ''amount'' \<noteq> None
              \<and> amount t = or_default (member (get history (date t)) ''amount'') (JNum (Fin 0))
              \<and> ton_sau t = or_default (member (get history (date t)) ''ton_sau'') (JNum (Fin 0))
              \<and> type t = or_default (member (get history (date t)) ''type'') (JStr ''NHAP''))
        \<and> (\<forall>alarms. get history ''alarm'' = Some alarms \<and> truthy (Some alarms) \<longrightarrow>
              mset (map alarm_timestamp (alarmHistorySubject s')) = mset (Object_keys alarms)
              \<and> (\<forall>e \<in> set (alarmHistorySubject s').
                    alarm_event e
                      = or_default (member (get alarms (alarm_timestamp e)) ''event'')
                          (JStr ''ALARM'')
                    \<and> (member (get alarms (alarm_timestamp e)) ''event'' = None \<longrightarrow>
                         alarm_event e = JStr ''ALARM'')))
        \<and> (\<not> truthy (get history ''alarm'') \<longrightarrow>
              alarmHistorySubject s' = alarmHistorySubject s)
        \<and> (\<forall>doors. get history ''door'' = Some doors \<and> truthy (Some doors) \<longrightarrow>
              mset (map door_timestamp (doorHistorySubject s')) = mset (Object_keys doors)
              \<and> (\<forall>e \<in> set (doorHistorySubject s').
                    door_event e
                      = or_default (member (get doors (door_timestamp e)) ''event'')
                          (JStr ''OPEN'')
                    \<and> (member (get doors (door_timestamp e)) ''event'' = None \<longrightarrow>
                         door_event e = JStr ''OPEN'')))
        \<and> (\<not> truthy (get history ''door'') \<longrightarrow>
              doorHistorySubject s' = doorHistorySubject s)
        \<and> currentInventorySubject s' = or_default (get data ''quantity'') (JNum (Fin 0))
        \<and> warehouseLoadingSubject s' = False)
   \<and> (\<exists>s''. warehouseValue getTime s snapshot s'')"
proof (intro conjI impI allI ballI; (elim conjE)?)
  show "\<exists>s''. warehouseValue getTime s snapshot s''"
    by (rule warehouseValue_total)
next
  assume "get data ''history'' = Some sample_history"
  then show "warehouseValue getTime s (Some data) s' =
        (s' = s\<lparr>currentInventorySubject := or_default (get data ''quantity'') (JNum (Fin 0)),
                alarmHistorySubject :=
                  [\<lparr>alarm_timestamp = ''2026-01-05_16-37-41'', alarm_event = JStr ''ALARM''\<rparr>],
                doorHistorySubject :=
                  [\<lparr>door_timestamp = ''2026-01-05_16-30-00'', door_event = JStr ''OPEN''\<rparr>],
                historySubject :=
                  [\<lparr>date = ''2025-12-20_20-11-20'', amount = JNum (Fin 50),
                    ton_sau = JNum (Fin 150), type = JStr ''NHAP''\<rparr>],
                warehouseLoadingSubject := False\<rparr>)"
    by (rule sample_published)
next
  assume run: "warehouseValue getTime s (Some data) s'"
    and h: "get data ''history'' = Some history" and th: "truthy (Some history)"
  note p = published_sorted [OF run h th]
  let ?pushed = "foldl (push_transaction history) [] (Object_keys history)"
  have "mset (map date (historySubject s')) = mset (map date ?pushed)"
    using Array_sort_mset [OF p(1)] by simp
  then show "mset (map date (historySubject s')) =
          mset (filter (\<lambda>key. key \<noteq> ''alarm'' \<and> key \<noteq> ''door''
                               \<and> member (get history key) ''amount'' \<noteq> None)
                  (Object_keys history))"
    by (simp only: dates_pushed)
  show "currentInventorySubject s' = or_default (get data ''quantity'') (JNum (Fin 0))"
    by (rule p(6))
  show "warehouseLoadingSubject s' = False"
    by (rule p(7))
  show "alarmHistorySubject s' = alarmHistorySubject s" if "\<not> truthy (get history ''alarm'')"
    using that by (rule p(3))
  show "doorHistorySubject s' = doorHistorySubject s" if "\<not> truthy (get history ''door'')"
    using that by (rule p(5))
  {
    fix t assume "t \<in> set (historySubject s')"
    then have t: "t \<in> set ?pushed"
      using Array_sort_set [OF p(1)] by simp
    note f = transaction_pushed [OF t]
    show "date t \<noteq> ''alarm''" "date t \<noteq> ''door''"
      "member (get history (date t)) ''amount'' \<noteq> None"
      "amount t = or_default (member (get history (date t)) ''amount'') (JNum (Fin 0))"
      "ton_sau t = or_default (member (get history (date t)) ''ton_sau'') (JNum (Fin 0))"
      "type t = or_default (member (get history (date t)) ''type'') (JStr ''NHAP'')"
      using f by simp_all
  }
  {
    fix alarms assume g: "get history ''alarm'' = Some alarms" and ta: "truthy (Some alarms)"
    note a = p(2) [OF g ta]
    have "mset (map alarm_timestamp (alarmHistorySubject s'))
            = mset (map alarm_timestamp (foldl (push_alarm alarms) [] (Object_keys alarms)))"
      using Array_sort_mset [OF a] by simp
    then show "mset (map alarm_timestamp (alarmHistorySubject s')) = mset (Object_keys alarms)"
      by (simp only: alarm_timestamps_pushed)
    fix e assume "e \<in> set (alarmHistorySubject s')"
    then have "e \<in> set (foldl (push_alarm alarms) [] (Object_keys alarms))"
      using Array_sort_set [OF a] by simp
    then show ev: "alarm_event e
        = or_default (member (get alarms (alarm_timestamp e)) ''event'') (JStr ''ALARM'')"
      by (rule alarm_pushed)
    show "alarm_event e = JStr ''ALARM''"
      if "member (get alarms (alarm_timestamp e)) ''event'' = None"
      using ev that by (simp add: or_default_absent)
  }
  {
    fix doors assume g: "get history ''door'' = Some doors" and td: "truthy (Some doors)"
    note d = p(4) [OF g td]
    have "mset (map door_timestamp (doorHistorySubject s'))
            = mset (map door_timestamp (foldl (push_door doors) [] (Object_keys doors)))"
      using Array_sort_mset [OF d] by simp
    then show "mset (map door_timestamp (doorHistorySubject s')) = mset (Object_keys doors)"
      by (simp only: door_timestamps_pushed)
    fix e assume "e \<in> set (doorHistorySubject s')"
    then have "e \<in> set (foldl (push_door doors) [] (Object_keys doors))"
      using Array_sort_set [OF d] by simp
    then show ev: "door_event e
        = or_default (member (get doors (door_timestamp e)) ''event'') (JStr ''OPEN'')"
      by (rule door_pushed)
    show "door_event e = JStr ''OPEN''"
      if "member (get doors (door_timestamp e)) ''event'' = None"
      using ev that by (simp add: or_default_absent)
  }
qed

text \<open>
  The theorem at a snapshot with a quantity and a history of four keys: an alarm entry
  and a door entry that carry no event, a record without an amount, and a record with an
  amount only; the \<open>Date\<close> reads none of the keys.
\<close>

theorem history_is_partitioned_witness:
  "warehouseValue (\<lambda>_. NaN) new_WarehouseService
     (Some (JObj [(''quantity'', JNum (Fin 150)),
                  (''history'',
                     JObj [(''alarm'', JObj [(''2026-01-05_16-37-41'', JObj [])]),
                           (''door'', JObj [(''2026-01-05_16-30-00'', JObj [])]),
                           (''note'', JObj [(''text'', JStr ''x'')]),
                           (''2025-12-20_20-11-20'', JObj [(''amount'', JNum (Fin 50))])])]))
     \<lparr>currentInventorySubject = JNum (Fin 150),
      historySubject = [\<lparr>date = ''2025-12-20_20-11-20'', amount = JNum (Fin 50),
                          ton_sau = JNum (Fin 0), type = JStr ''NHAP''\<rparr>],
      alarmHistorySubject = [\<lparr>alarm_timestamp = ''2026-01-05_16-37-41'',
                               alarm_event = JStr ''ALARM''\<rparr>],
      doorHistorySubject = [\<lparr>door_timestamp = ''2026-01-05_16-30-00'',
                              door_event = JStr ''OPEN''\<rparr>],
      warehouseLoadingSubject = False\<rparr>
   \<and> mset (map date (historySubject
        \<lparr>currentInventorySubject = JNum (Fin 150),
         historySubject = [\<lparr>date = ''2025-12-20_20-11-20'', amount = JNum (Fin 50),
                             ton_sau = JNum (Fin 0), type = JStr ''NHAP''\<rparr>],
         alarmHistorySubject = [\<lparr>alarm_timestamp = ''2026-01-05_16-37-41'',
                                  alarm_event = JStr ''ALARM''\<rparr>],
         doorHistorySubject = [\<lparr>door_timestamp = ''2026-01-05_16-30-00'',
                                 door_event = JStr ''OPEN''\<rparr>],
         warehouseLoadingSubject = False\<rparr>))
       = {#''2025-12-20_20-11-20''#}
   \<and> member (get (JObj [(''2026-01-05_16-37-41'', JObj [])]) ''2026-01-05_16-37-41'') ''event''
       = None
   \<and> member (get (JObj [(''2026-01-05_16-30-00'', JObj [])]) ''2026-01-05_16-30-00'') ''event''
       = None
   \<and> (\<exists>s''. warehouseValue (\<lambda>_. NaN) new_WarehouseService None s'')"
proof -
  let ?a = "JObj [(''2026-01-05_16-37-41'', JObj [])]"
  let ?d = "JObj [(''2026-01-05_16-30-00'', JObj [])]"
  let ?h = "JObj [(''alarm'', ?a), (''door'', ?d), (''note'', JObj [(''text'', JStr ''x'')]),
                  (''2025-12-20_20-11-20'', JObj [(''amount'', JNum (Fin 50))])]"
  let ?data = "JObj [(''quantity'', JNum (Fin 150)), (''history'', ?h)]"
  let ?s' = "\<lparr>currentInventorySubject = JNum (Fin 150),
      historySubject = [\<lparr>date = ''2025-12-20_20-11-20'', amount = JNum (Fin 50),
                          ton_sau = JNum (Fin 0), type = JStr ''NHAP''\<rparr>],
      alarmHistorySubject = [\<lparr>alarm_timestamp = ''2026-01-05_16-37-41'',
                               alarm_event = JStr ''ALARM''\<rparr>],
      doorHistorySubject = [\<lparr>door_timestamp = ''2026-01-05_16-30-00'',
                              door_event = JStr ''OPEN''\<rparr>],
      warehouseLoadingSubject = False\<rparr>"
  have h: "get ?data ''history'' = Some ?h" and th: "truthy (Some ?h)"
    by (simp_all add: get_def entries_def truthy_def)
  have ga: "get ?h ''alarm'' = Some ?a" and gd: "get ?h ''door'' = Some ?d"
    by (simp_all add: get_def entries_def)
  have pa: "foldl (push_alarm ?a) [] (Object_keys ?a)
      = [\<lparr>alarm_timestamp = ''2026-01-05_16-37-41'', alarm_event = JStr ''ALARM''\<rparr>]"
    by (simp add: Object_keys_def entries_def push_alarm_def get_def
        member_def or_default_def truthy_def Let_def)
  have pd: "foldl (push_door ?d) [] (Object_keys ?d)
      = [\<lparr>door_timestamp = ''2026-01-05_16-30-00'', door_event = JStr ''OPEN''\<rparr>]"
    by (simp add: Object_keys_def entries_def push_door_def get_def
        member_def or_default_def truthy_def Let_def)
  have pt: "foldl (push_transaction ?h) [] (Object_keys ?h)
      = [\<lparr>date = ''2025-12-20_20-11-20'', amount = JNum (Fin 50), ton_sau = JNum (Fin 0),
           type = JStr ''NHAP''\<rparr>]"
    by (simp add: Object_keys_def entries_def push_transaction_def
        get_def member_def or_default_def truthy_def truthy_number_def Let_def)
  have q: "or_default (get ?data ''quantity'') (JNum (Fin 0)) = JNum (Fin 150)"
    by (simp add: get_def entries_def or_default_def truthy_def truthy_number_def)
  have run: "warehouseValue (\<lambda>_. NaN) new_WarehouseService (Some ?data) ?s'"
    unfolding warehouseValue_iff [OF h th]
    by (simp add: ga gd pa pd pt q truthy_def Array_sort_single new_WarehouseService_def)
  note th' = history_is_partitioned
    [of ?data "\<lambda>_. NaN" new_WarehouseService ?s' ?h None]
  have keys: "mset (map date (historySubject ?s')) = {#''2025-12-20_20-11-20''#}"
    using th' run h th by simp
  have absent: "member (get ?a ''2026-01-05_16-37-41'') ''event'' = None"
    "member (get ?d ''2026-01-05_16-30-00'') ''event'' = None"
    by (simp_all add: get_def entries_def member_def)
  have total: "\<exists>s''. warehouseValue (\<lambda>_. NaN) new_WarehouseService None s''"
    using th' by blast
  show ?thesis
    using run keys absent total by (intro conjI)
qed

section \<open>The order of the reconciled arrays\<close>

text \<open>
  Each comparator is the difference of the time values \<open>Date\<close> reads from the two
  keys. When \<open>Date\<close> reads neither key the difference is NaN, which \<open>sort\<close> takes
  for a tie.
\<close>

lemma date_compare_unread:
  "getTime (date a) = NaN \<Longrightarrow> getTime (date b) = NaN \<Longrightarrow> eq_C (date_compare getTime) a b"
  by (simp add: NaN_eq_C date_compare_def sub_def neg_def)

lemma alarm_compare_unread:
  "getTime (alarm_timestamp a) = NaN \<Longrightarrow> getTime (alarm_timestamp b) = NaN \<Longrightarrow>
   eq_C (alarm_compare getTime) a b"
  by (simp add: NaN_eq_C alarm_compare_def sub_def neg_def)

lemma door_compare_unread:
  "getTime (door_timestamp a) = NaN \<Longrightarrow> getTime (door_timestamp b) = NaN \<Longrightarrow>
   eq_C (door_compare getTime) a b"
  by (simp add: NaN_eq_C door_compare_def sub_def neg_def)

lemma date_in_keys:
  "t \<in> set (foldl (push_transaction history) [] keys) \<Longrightarrow>
   date t \<in> set (filter (\<lambda>key. key \<noteq> ''alarm'' \<and> key \<noteq> ''door''
                                \<and> member (get history key) ''amount'' \<noteq> None) keys)"
  using dates_pushed [of history keys] by (metis image_eqI set_map)

lemma alarm_timestamp_in_keys:
  "e \<in> set (foldl (push_alarm alarms) [] keys) \<Longrightarrow> alarm_timestamp e \<in> set keys"
  using alarm_timestamps_pushed [of alarms keys] by (metis image_eqI set_map)

lemma door_timestamp_in_keys:
  "e \<in> set (foldl (push_door doors) [] keys) \<Longrightarrow> door_timestamp e \<in> set keys"
  using door_timestamps_pushed [of doors keys] by (metis image_eqI set_map)

text \<open>
  C3, where the code departs from it. The three arrays are sorted with the difference
  of the time values that \<open>new Date\<close> reads from the keys. Whenever \<open>Date\<close> reads none
  of the keys of an array, which is what the engine does with keys of the form
  \<open>YYYY-MM-DD_HH-mm-ss\<close>, every comparison is a tie and the array is published in the
  order of the keys: for every outcome of the listener, the dates of the transactions
  published are the transaction keys of the history in the order \<open>Object.keys\<close> lists
  them, and the timestamps of the alarm and door events are the keys of the alarm and
  door objects in that order. An older key listed before a newer one stays before it.
\<close>

theorem unread_dates_keep_key_order:
  "warehouseValue getTime s (Some data) s' \<and> get data ''history'' = Some history
     \<and> truthy (Some history) \<longrightarrow>
   ((\<forall>key \<in> set (Object_keys history).
        key \<noteq> ''alarm'' \<and> key \<noteq> ''door'' \<and> member (get history key) ''amount'' \<noteq> None \<longrightarrow>
        getTime key = NaN) \<longrightarrow>
      historySubject s' = foldl (push_transaction history) [] (Object_keys history)
      \<and> map date (historySubject s')
          = filter (\<lambda>key. key \<noteq> ''alarm'' \<and> key \<noteq> ''door''
                           \<and> member (get history key) ''amount'' \<noteq> None)
              (Object_keys history))
   \<and> (\<forall>alarms. get history ''alarm'' = Some alarms \<and> truthy (Some alarms)
         \<and> (\<forall>key \<in> set (Object_keys alarms). getTime key = NaN) \<longrightarrow>
         alarmHistorySubject s' = foldl (push_alarm alarms) [] (Object_keys alarms)
         \<and> map alarm_timestamp (alarmHistorySubject s') = Object_keys alarms)
   \<and> (\<forall>doors. get history ''door'' = Some doors \<and> truthy (Some doors)
         \<and> (\<forall>key \<in> set (Object_keys doors). getTime key = NaN) \<longrightarrow>
         doorHistorySubject s' = foldl (push_door doors) [] (Object_keys doors)
         \<and> map door_timestamp (doorHistorySubject s') = Object_keys doors)"
proof (intro impI, elim conjE, intro conjI impI allI; (elim conjE)?)
  assume run: "warehouseValue getTime s (Some data) s'"
    and h: "get data ''history'' = Some history" and th: "truthy (Some history)"
  note p = published_sorted [OF run h th]
  {
    let ?pushed = "foldl (push_transaction history) [] (Object_keys history)"
    assume unread: "\<forall>key \<in> set (Object_keys history).
        key \<noteq> ''alarm'' \<and> key \<noteq> ''door'' \<and> member (get history key) ''amount'' \<noteq> None \<longrightarrow>
        getTime key = NaN"
    have "getTime (date t) = NaN" if "t \<in> set ?pushed" for t
      using date_in_keys [OF that] unread by simp
    then have "\<forall>x \<in> set ?pushed. \<forall>y \<in> set ?pushed. eq_C (date_compare getTime) x y"
      by (simp add: date_compare_unread)
    then show eq: "historySubject s' = ?pushed"
      using p(1) by (simp add: Array_sort_all_equal)
    show "map date (historySubject s')
          = filter (\<lambda>key. key \<noteq> ''alarm'' \<and> key \<noteq> ''door''
                           \<and> member (get history key) ''amount'' \<noteq> None)
              (Object_keys history)"
      unfolding eq by (rule dates_pushed)
  }
  {
    fix alarms
    let ?pushed = "foldl (push_alarm alarms) [] (Object_keys alarms)"
    assume g: "get history ''alarm'' = Some alarms" and ta: "truthy (Some alarms)"
      and unread: "\<forall>key \<in> set (Object_keys alarms). getTime key = NaN"
    have "getTime (alarm_timestamp e) = NaN" if "e \<in> set ?pushed" for e
      using alarm_timestamp_in_keys [OF that] unread by simp
    then have "\<forall>x \<in> set ?pushed. \<forall>y \<in> set ?pushed. eq_C (alarm_compare getTime) x y"
      by (simp add: alarm_compare_unread)
    then show eq: "alarmHistorySubject s' = ?pushed"
      using p(2) [OF g ta] by (simp add: Array_sort_all_equal)
    show "map alarm_timestamp (alarmHistorySubject s') = Object_keys alarms"
      unfolding eq by (rule alarm_timestamps_pushed)
  }
  {
    fix doors
    let ?pushed = "foldl (push_door doors) [] (Object_keys doors)"
    assume g: "get history ''door'' = Some doors" and td: "truthy (Some doors)"
      and unread: "\<forall>key \<in> set (Object_keys doors). getTime key = NaN"
    have "getTime (door_timestamp e) = NaN" if "e \<in> set ?pushed" for e
      using door_timestamp_in_keys [OF that] unread by simp
    then have "\<forall>x \<in> set ?pushed. \<forall>y \<in> set ?pushed. eq_C (door_compare getTime) x y"
      by (simp add: door_compare_unread)
    then show eq: "doorHistorySubject s' = ?pushed"
      using p(4) [OF g td] by (simp add: Array_sort_all_equal)
    show "map door_timestamp (doorHistorySubject s') = Object_keys doors"
      unfolding eq by (rule door_timestamps_pushed)
  }
qed

text \<open>
  The theorem at a snapshot whose history lists, each time the older key first, two
  alarm entries, two door entries and two transactions, with a \<open>Date\<close> that reads none
  of these keys. The listener publishes each array with the older entry first.
\<close>

theorem unread_dates_keep_key_order_witness:
  "warehouseValue (\<lambda>_. NaN) new_WarehouseService
     (Some (JObj [(''quantity'', JNum (Fin 130)),
                  (''history'',
                     JObj [(''alarm'',
                              JObj [(''2026-01-05_16-37-41'', JObj [(''event'', JStr ''ALARM'')]),
                                    (''2026-01-06_09-00-00'', JObj [(''event'', JStr ''ALARM'')])]),
                           (''door'',
                              JObj [(''2026-01-05_16-30-00'', JObj [(''event'', JStr ''OPEN'')]),
                                    (''2026-01-06_08-55-00'', JObj [(''event'', JStr ''OPEN'')])]),
                           (''2025-12-20_20-11-20'',
                              JObj [(''amount'', JNum (Fin 50)), (''ton_sau'', JNum (Fin 150)),
                                    (''type'', JStr ''NHAP'')]),
                           (''2025-12-21_08-00-00'',
                              JObj [(''amount'', JNum (Fin 20)), (''ton_sau'', JNum (Fin 130)),
                                    (''type'', JStr ''XUAT'')])])]))
     \<lparr>currentInventorySubject = JNum (Fin 130),
      historySubject =
        [\<lparr>date = ''2025-12-20_20-11-20'', amount = JNum (Fin 50), ton_sau = JNum (Fin 150),
           type = JStr ''NHAP''\<rparr>,
         \<lparr>date = ''2025-12-21_08-00-00'', amount = JNum (Fin 20), ton_sau = JNum (Fin 130),
           type = JStr ''XUAT''\<rparr>],
      alarmHistorySubject =
        [\<lparr>alarm_timestamp = ''2026-01-05_16-37-41'', alarm_event = JStr ''ALARM''\<rparr>,
         \<lparr>alarm_timestamp = ''2026-01-06_09-00-00'', alarm_event = JStr ''ALARM''\<rparr>],
      doorHistorySubject =
        [\<lparr>door_timestamp = ''2026-01-05_16-30-00'', door_event = JStr ''OPEN''\<rparr>,
         \<lparr>door_timestamp = ''2026-01-06_08-55-00'', door_event = JStr ''OPEN''\<rparr>],
      warehouseLoadingSubject = False\<rparr>
   \<and> map date (historySubject
        \<lparr>currentInventorySubject = JNum (Fin 130),
         historySubject =
           [\<lparr>date = ''2025-12-20_20-11-20'', amount = JNum (Fin 50), ton_sau = JNum (Fin 150),
              type = JStr ''NHAP''\<rparr>,
            \<lparr>date = ''2025-12-21_08-00-00'', amount = JNum (Fin 20), ton_sau = JNum (Fin 130),
              type = JStr ''XUAT''\<rparr>],
         alarmHistorySubject =
           [\<lparr>alarm_timestamp = ''2026-01-05_16-37-41'', alarm_event = JStr ''ALARM''\<rparr>,
            \<lparr>alarm_timestamp = ''2026-01-06_09-00-00'', alarm_event = JStr ''ALARM''\<rparr>],
         doorHistorySubject =
           [\<lparr>door_timestamp = ''2026-01-05_16-30-00'', door_event = JStr ''OPEN''\<rparr>,
            \<lparr>door_timestamp = ''2026-01-06_08-55-00'', door_event = JStr ''OPEN''\<rparr>],
         warehouseLoadingSubject = False\<rparr>)
       = [''2025-12-20_20-11-20'', ''2025-12-21_08-00-00'']
   \<and> map alarm_timestamp (alarmHistorySubject
        \<lparr>currentInventorySubject = JNum (Fin 130),
         historySubject =
           [\<lparr>date = ''2025-12-20_20-11-20'', amount = JNum (Fin 50), ton_sau = JNum (Fin 150),
              type = JStr ''NHAP''\<rparr>,
            \<lparr>date = ''2025-12-21_08-00-00'', amount = JNum (Fin 20), ton_sau = JNum (Fin 130),
              type = JStr ''XUAT''\<rparr>],
         alarmHistorySubject =
           [\<lparr>alarm_timestamp = ''2026-01-05_16-37-41'', alarm_event = JStr ''ALARM''\<rparr>,
            \<lparr>alarm_timestamp = ''2026-01-06_09-00-00'', alarm_event = JStr ''ALARM''\<rparr>],
         doorHistorySubject =
           [\<lparr>door_timestamp = ''2026-01-05_16-30-00'', door_event = JStr ''OPEN''\<rparr>,
            \<lparr>door_timestamp = ''2026-01-06_08-55-00'', door_event = JStr ''OPEN''\<rparr>],
         warehouseLoadingSubject = False\<rparr>)
       = [''2026-01-05_16-37-41'', ''2026-01-06_09-00-00'']
   \<and> map door_timestamp (doorHistorySubject
        \<lparr>currentInventorySubject = JNum (Fin 130),
         historySubject =
           [\<lparr>date = ''2025-12-20_20-11-20'', amount = JNum (Fin 50), ton_sau = JNum (Fin 150),
              type = JStr ''NHAP''\<rparr>,
            \<lparr>date = ''2025-12-21_08-00-00'', amount = JNum (Fin 20), ton_sau = JNum (Fin 130),
              type = JStr ''XUAT''\<rparr>],
         alarmHistorySubject =
           [\<lparr>alarm_timestamp = ''2026-01-05_16-37-41'', alarm_event = JStr ''ALARM''\<rparr>,
            \<lparr>alarm_timestamp = ''2026-01-06_09-00-00'', alarm_event = JStr ''ALARM''\<rparr>],
         doorHistorySubject =
           [\<lparr>door_timestamp = ''2026-01-05_16-30-00'', door_event = JStr ''OPEN''\<rparr>,
            \<lparr>door_timestamp = ''2026-01-06_08-55-00'', door_event = JStr ''OPEN''\<rparr>],
         warehouseLoadingSubject = False\<rparr>)
       = [''2026-01-05_16-30-00'', ''2026-01-06_08-55-00'']"
proof -
  let ?a = "JObj [(''2026-01-05_16-37-41'', JObj [(''event'', JStr ''ALARM'')]),
                  (''2026-01-06_09-00-00'', JObj [(''event'', JStr ''ALARM'')])]"
  let ?d = "JObj [(''2026-01-05_16-30-00'', JObj [(''event'', JStr ''OPEN'')]),
                  (''2026-01-06_08-55-00'', JObj [(''event'', JStr ''OPEN'')])]"
  let ?h = "JObj [(''alarm'', ?a), (''door'', ?d),
                  (''2025-12-20_20-11-20'',
                     JObj [(''amount'', JNum (Fin 50)), (''ton_sau'', JNum (Fin 150)),
                           (''type'', JStr ''NHAP'')]),
                  (''2025-12-21_08-00-00'',
                     JObj [(''amount'', JNum (Fin 20)), (''ton_sau'', JNum (Fin 130)),
                           (''type'', JStr ''XUAT'')])]"
  let ?data = "JObj [(''quantity'', JNum (Fin 130)), (''history'', ?h)]"
  let ?ts = "[\<lparr>date = ''2025-12-20_20-11-20'', amount = JNum (Fin 50), ton_sau = JNum (Fin 150),
                type = JStr ''NHAP''\<rparr>,
              \<lparr>date = ''2025-12-21_08-00-00'', amount = JNum (Fin 20), ton_sau = JNum (Fin 130),
                type = JStr ''XUAT''\<rparr>]"
  let ?as = "[\<lparr>alarm_timestamp = ''2026-01-05_16-37-41'', alarm_event = JStr ''ALARM''\<rparr>,
              \<lparr>alarm_timestamp = ''2026-01-06_09-00-00'', alarm_event = JStr ''ALARM''\<rparr>]"
  let ?ds = "[\<lparr>door_timestamp = ''2026-01-05_16-30-00'', door_event = JStr ''OPEN''\<rparr>,
              \<lparr>door_timestamp = ''2026-01-06_08-55-00'', door_event = JStr ''OPEN''\<rparr>]"
  let ?s' = "\<lparr>currentInventorySubject = JNum (Fin 130), historySubject = ?ts,
             alarmHistorySubject = ?as, doorHistorySubject = ?ds,
             warehouseLoadingSubject = False\<rparr>"
  have h: "get ?data ''history'' = Some ?h" and th: "truthy (Some ?h)"
    by (simp_all add: get_def entries_def truthy_def)
  have ga: "get ?h ''alarm'' = Some ?a" and gd: "get ?h ''door'' = Some ?d"
    by (simp_all add: get_def entries_def)
  have pa: "foldl (push_alarm ?a) [] (Object_keys ?a) = ?as"
    by (simp add: Object_keys_def entries_def push_alarm_def get_def
        member_def or_default_def truthy_def Let_def)
  have pd: "foldl (push_door ?d) [] (Object_keys ?d) = ?ds"
    by (simp add: Object_keys_def entries_def push_door_def get_def
        member_def or_default_def truthy_def Let_def)
  have pt: "foldl (push_transaction ?h) [] (Object_keys ?h) = ?ts"
    by (simp add: Object_keys_def entries_def push_transaction_def
        get_def member_def or_default_def truthy_def truthy_number_def Let_def)
  have q: "or_default (get ?data ''quantity'') (JNum (Fin 0)) = JNum (Fin 130)"
    by (simp add: get_def entries_def or_default_def truthy_def truthy_number_def)
  have sa: "Array_sort (alarm_compare (\<lambda>_. NaN)) ?as ys = (ys = ?as)" for ys
    by (rule Array_sort_all_equal) (simp add: alarm_compare_unread)
  have sd: "Array_sort (door_compare (\<lambda>_. NaN)) ?ds ys = (ys = ?ds)" for ys
    by (rule Array_sort_all_equal) (simp add: door_compare_unread)
  have st: "Array_sort (date_compare (\<lambda>_. NaN)) ?ts ys = (ys = ?ts)" for ys
    by (rule Array_sort_all_equal) (simp add: date_compare_unread)
  have run: "warehouseValue (\<lambda>_. NaN) new_WarehouseService (Some ?data) ?s'"
    unfolding warehouseValue_iff [OF h th]
    by (simp add: ga gd pa pd pt q truthy_def sa sd st new_WarehouseService_def)
  note th' = unread_dates_keep_key_order [of "\<lambda>_. NaN" new_WarehouseService ?data ?s' ?h]
  from th' run h th
  have "(\<forall>key \<in> set (Object_keys ?h).
           key \<noteq> ''alarm'' \<and> key \<noteq> ''door'' \<and> member (get ?h key) ''amount'' \<noteq> None \<longrightarrow>
           (\<lambda>_. NaN) key = NaN) \<longrightarrow>
         historySubject ?s' = foldl (push_transaction ?h) [] (Object_keys ?h)
         \<and> map date (historySubject ?s')
             = filter (\<lambda>key. key \<noteq> ''alarm'' \<and> key \<noteq> ''door''
                              \<and> member (get ?h key) ''amount'' \<noteq> None) (Object_keys ?h)"
    by blast
  then have "map date (historySubject ?s')
             = filter (\<lambda>key. key \<noteq> ''alarm'' \<and> key \<noteq> ''door''
                              \<and> member (get ?h key) ''amount'' \<noteq> None) (Object_keys ?h)"
    by blast
  also have "\<dots> = [''2025-12-20_20-11-20'', ''2025-12-21_08-00-00'']"
    by (simp add: Object_keys_def entries_def get_def member_def)
  finally have order: "map date (historySubject ?s')
          = [''2025-12-20_20-11-20'', ''2025-12-21_08-00-00'']" .
  from th' run h th ga
  have "truthy (Some ?a) \<and> (\<forall>key \<in> set (Object_keys ?a). (\<lambda>_. NaN) key = NaN) \<longrightarrow>
         alarmHistorySubject ?s' = foldl (push_alarm ?a) [] (Object_keys ?a)
         \<and> map alarm_timestamp (alarmHistorySubject ?s') = Object_keys ?a"
    by blast
  moreover have "truthy (Some ?a) \<and> (\<forall>key \<in> set (Object_keys ?a). (\<lambda>_. NaN) key = NaN)"
    by (simp add: truthy_def)
  ultimately have "map alarm_timestamp (alarmHistorySubject ?s') = Object_keys ?a"
    by blast
  also have "\<dots> = [''2026-01-05_16-37-41'', ''2026-01-06_09-00-00'']"
    by (simp add: Object_keys_def entries_def)
  finally have alarms: "map alarm_timestamp (alarmHistorySubject ?s')
          = [''2026-01-05_16-37-41'', ''2026-01-06_09-00-00'']" .
  from th' run h th gd
  have "truthy (Some ?d) \<and> (\<forall>key \<in> set (Object_keys ?d). (\<lambda>_. NaN) key = NaN) \<longrightarrow>
         doorHistorySubject ?s' = foldl (push_door ?d) [] (Object_keys ?d)
         \<and> map door_timestamp (doorHistorySubject ?s') = Object_keys ?d"
    by blast
  moreover have "truthy (Some ?d) \<and> (\<forall>key \<in> set (Object_keys ?d). (\<lambda>_. NaN) key = NaN)"
    by (simp add: truthy_def)
  ultimately have "map door_timestamp (doorHistorySubject ?s') = Object_keys ?d"
    by blast
  also have "\<dots> = [''2026-01-05_16-30-00'', ''2026-01-06_08-55-00'']"
    by (simp add: Object_keys_def entries_def)
  finally have doors: "map door_timestamp (doorHistorySubject ?s')
          = [''2026-01-05_16-30-00'', ''2026-01-06_08-55-00'']" .
  show ?thesis
    using run order alarms doors by (intro conjI)
qed

section \<open>formatDate\<close>

lemma split_on_without_separator: "sep \<notin> set s \<Longrightarrow> split_on sep s = [s]"
  by (induction s) auto

lemma split_on_not_empty: "split_on sep s \<noteq> []"
  by (induction s) (simp_all split: list.splits)

lemma split_on_with_separator:
  "sep \<in> set s \<Longrightarrow> \<exists>a b rest. split_on sep s = a # b # rest"
proof (induction s)
  case Nil
  then show ?case by simp
next
  case (Cons c cs)
  show ?case
  proof (cases "c = sep")
    case True
    obtain p ps where "split_on sep cs = p # ps"
      using split_on_not_empty [of sep cs] by (cases "split_on sep cs") auto
    with True show ?thesis by simp
  next
    case False
    with Cons.prems have "sep \<in> set cs" by simp
    then obtain a b rest where "split_on sep cs = a # b # rest"
      using Cons.IH by blast
    with False show ?thesis by simp
  qed
qed

text \<open>
  A string without an underscore has no time part: reading it raises, and the \<open>catch\<close>
  returns the string. With an underscore nothing raises, and the result is the
  rendering of the date constructed, whatever that date is.
\<close>

lemma formatDate_without_underscore:
  "CHR ''_'' \<notin> set s \<Longrightarrow> formatDate Number makeTime fmt s = s"
  by (simp add: formatDate_def split_on_without_separator)

lemma formatDate_with_underscore:
  "CHR ''_'' \<in> set s \<Longrightarrow> \<exists>d. formatDate Number makeTime fmt s = toLocaleString fmt d"
proof -
  assume "CHR ''_'' \<in> set s"
  then obtain a b rest where "split_on CHR ''_'' s = a # b # rest"
    using split_on_with_separator by blast
  then show ?thesis
    by (auto simp: formatDate_def Let_def)
qed

lemma formatDate_not_numeric:
  "Number ''abcd'' = NaN \<Longrightarrow>
   formatDate Number makeTime fmt ''abcd-12-20_20-11-20'' = ''Invalid Date''"
  by (simp add: formatDate_def elem_def new_Date_def toLocaleString_def Let_def)

text \<open>
  C5, where the code departs from it. \<open>2025-12_20-11-20\<close> has two date components
  instead of three: the day is \<open>undefined\<close>, the \<open>Date\<close> is invalid, nothing is
  raised, and \<open>formatDate\<close> returns the rendering of an Invalid Date instead of its
  argument, whatever the runtime's \<open>Number\<close>, calendar and locale rendering are. The
  \<open>catch\<close> is reached by \<open>not-a-date\<close>, which has no underscore.
\<close>

theorem formatDate_missing_component:
  "formatDate Number makeTime fmt ''2025-12_20-11-20'' = ''Invalid Date''
   \<and> formatDate Number makeTime fmt ''not-a-date'' = ''not-a-date''"
proof -
  have "new_Date makeTime (Number ''2025'') (sub (Number ''12'') (Fin 1)) NaN
          (Number ''20'') (Number ''11'') (Number ''20'') = None"
    by (simp add: new_Date_def split: number.splits)
  then have "formatDate Number makeTime fmt ''2025-12_20-11-20'' = ''Invalid Date''"
    by (simp add: formatDate_def elem_def toLocaleString_def Let_def)
  moreover have "formatDate Number makeTime fmt ''not-a-date'' = ''not-a-date''"
    by (rule formatDate_without_underscore) simp
  ultimately show ?thesis by simp
qed

end
